theory Spec2Isabelle
  imports Complex_Main "HOL-Library.Word"
begin

unbundle bit_operations_syntax

section \<open>Values and exceptions of the host language\<close>

text \<open>
  The exceptions the modelled snippets raise or catch. A call that can raise
  returns \<open>exn + 'a\<close>, with \<open>Inl\<close> for the exception.
\<close>

datatype exn =
    ZeroDivisionError
  | ValueError string
  | TypeError string
  | StopIteration
  | Reset
  | UnicodeDecodeError
  | UnicodeEncodeError
  | FileNotFoundError
  | NameError string
  | KeyError string
  | IndexError string
  | OverflowError string

text \<open>
  The numbers the snippets pass around. A float literal such as \<open>5.0\<close> is kept
  apart from the integer \<open>5\<close> by its tag; its value is the rational it denotes.
\<close>

datatype number = PyInt int | PyFloat rat

text \<open>
  A finite \<open>float\<close> is a double: its sign bit and its absolute value, a
  rational of the form \<open>m * 2 ^ s\<close> with \<open>m < 2 ^ 53\<close> and \<open>- 1074 \<le> s\<close>.
  \<open>Finite True 0\<close> is \<open>-0.0\<close>.
\<close>

datatype pyfloat = Finite bool rat

text \<open>Rounding to the nearest integer, a tie going to the even neighbour.\<close>

definition round_half_even :: "rat \<Rightarrow> int" where
  "round_half_even x =
     (let below = \<lfloor>x\<rfloor>; rest = x - of_int below
      in if rest < 1 / 2 then below
         else if 1 / 2 < rest then below + 1
         else if even below then below else below + 1)"

text \<open>
  The operator \<open>/\<close> on two \<open>int\<close>s: the quotient, correctly rounded to a
  double (to 53 significant bits, or to a multiple of \<open>2 ^ - 1074\<close> when it is
  smaller than \<open>2 ^ - 1022\<close>; ties to even). A zero divisor raises
  \<open>ZeroDivisionError\<close>; a quotient that rounds to \<open>2 ^ 1024\<close> or more has no
  double and raises \<open>OverflowError\<close>. The sign is that of the operands, also
  for a zero result.
\<close>

fun bit_length :: "nat \<Rightarrow> nat" where
  "bit_length n = (if n = 0 then 0 else Suc (bit_length (n div 2)))"

declare bit_length.simps [simp del]

definition pow2 :: "int \<Rightarrow> rat" where
  "pow2 k = (if 0 \<le> k then 2 ^ nat k else 1 / 2 ^ nat (- k))"

definition floor_log2 :: "nat \<Rightarrow> nat \<Rightarrow> int" where
  "floor_log2 p d =
     (let k = int (bit_length p) - int (bit_length d)
      in if pow2 k * of_nat d \<le> of_nat p then k else k - 1)"

definition round_quotient :: "nat \<Rightarrow> nat \<Rightarrow> rat" where
  "round_quotient p d =
     (if p = 0 then 0
      else let s = max (floor_log2 p d - 52) (- 1074)
           in of_int (round_half_even (of_nat p / of_nat d / pow2 s)) * pow2 s)"

definition true_divide :: "int \<Rightarrow> int \<Rightarrow> exn + pyfloat" where
  "true_divide a b =
     (if b = 0 then Inl ZeroDivisionError
      else let r = round_quotient (nat \<bar>a\<bar>) (nat \<bar>b\<bar>)
           in if 2 ^ 1024 \<le> r
              then Inl (OverflowError ''integer division result too large for a float'')
              else Inr (Finite ((a < 0) \<noteq> (b < 0)) r))"


section \<open>Host-language primitives used by the snippets\<close>

text \<open>
  Python integers are unbounded and are modelled as \<open>int\<close>. The built-in
  \<open>range(start, stop)\<close> enumerates \<open>start, start + 1, ..., stop - 1\<close>; it is
  empty when \<open>stop \<le> start\<close>. Python's \<open>%\<close> on integers is the floored
  remainder, which is \<open>mod\<close> on \<open>int\<close>.
\<close>

definition py_range :: "int \<Rightarrow> int \<Rightarrow> int list" where
  "py_range start stop = [start..stop - 1]"

section \<open>Chapter 1, Item 9: the two coprimality helpers\<close>

text \<open>
  \<^verbatim>\<open>
  def coprime(a, b):
      for i in range(2, min(a, b) + 1):
          if a % i == 0 and b % i == 0:
              return False
      return True
  \<close>
  The loop is a recursion over the values the range produces; the early
  \<open>return False\<close> ends it, and leaving the loop returns \<open>True\<close>.
\<close>

fun coprime_loop :: "int \<Rightarrow> int \<Rightarrow> int list \<Rightarrow> bool" where
  "coprime_loop a b [] = True"
| "coprime_loop a b (i # rest) =
     (if a mod i = 0 \<and> b mod i = 0 then False else coprime_loop a b rest)"

definition coprime_py :: "int \<Rightarrow> int \<Rightarrow> bool" where
  "coprime_py a b = coprime_loop a b (py_range 2 (min a b + 1))"

text \<open>
  \<^verbatim>\<open>
  def coprime_alternate(a, b):
      is_coprime = True
      for i in range(2, min(a, b) + 1):
          if a % i == 0 and b % i == 0:
              is_coprime = False
              break
      return is_coprime
  \<close>
  Here the loop carries the result variable \<open>is_coprime\<close>; \<open>break\<close> leaves
  the loop with the variable just assigned.
\<close>

fun alternate_loop :: "int \<Rightarrow> int \<Rightarrow> bool \<Rightarrow> int list \<Rightarrow> bool" where
  "alternate_loop a b is_coprime [] = is_coprime"
| "alternate_loop a b is_coprime (i # rest) =
     (if a mod i = 0 \<and> b mod i = 0 then False else alternate_loop a b is_coprime rest)"

definition coprime_alternate :: "int \<Rightarrow> int \<Rightarrow> bool" where
  "coprime_alternate a b = alternate_loop a b True (py_range 2 (min a b + 1))"


section \<open>Chapter 4, Item 33: composing generators with yield from\<close>

text \<open>
  A generator that finishes is modelled by the sequence of values it yields
  before it raises \<open>StopIteration\<close>.
  \<^verbatim>\<open>
  def move(period, speed):
      for _ in range(period):
          yield speed

  def pause(delay):
      for _ in range(delay):
          yield 0
  \<close>
\<close>

definition move :: "int \<Rightarrow> number \<Rightarrow> number list" where
  "move period speed = map (\<lambda>_. speed) (py_range 0 period)"

definition pause :: "int \<Rightarrow> number list" where
  "pause delay = map (\<lambda>_. PyInt 0) (py_range 0 delay)"

text \<open>
  The explicit loop \<^verbatim>\<open>for delta in it: yield delta\<close> takes the values of the
  inner generator one at a time and yields each of them.
\<close>

fun for_yield :: "'a list \<Rightarrow> 'a list" where
  "for_yield [] = []"
| "for_yield (delta # rest) = delta # for_yield rest"

text \<open>
  \<^verbatim>\<open>
  def animate():
      for delta in move(4, 5.0):
          yield delta
      for delta in pause(3):
          yield delta
      for delta in move(2, 3.0):
          yield delta
  \<close>
\<close>

definition animate :: "number list" where
  "animate =
     for_yield (move 4 (PyFloat 5)) @ for_yield (pause 3) @ for_yield (move 2 (PyFloat 3))"

text \<open>
  \<open>yield from\<close> hands the whole inner generator to the caller: every value
  it yields is yielded, in order, and then the outer body goes on.
  \<^verbatim>\<open>
  def animate_composed():
      yield from move(4, 5.0)
      yield from pause(3)
      yield from move(2, 3.0)
  \<close>
\<close>

definition yield_from :: "'a list \<Rightarrow> 'a list" where
  "yield_from inner = inner"

definition animate_composed :: "number list" where
  "animate_composed =
     yield_from (move 4 (PyFloat 5)) @ yield_from (pause 3) @ yield_from (move 2 (PyFloat 3))"

text \<open>
  \<^verbatim>\<open>
  def child():
      for i in range(1_000_000):
          yield i

  def slow():
      for i in child():
          yield i

  def fast():
      yield from child()
  \<close>
\<close>

definition child :: "int list" where
  "child = map (\<lambda>i. i) (py_range 0 1000000)"

definition slow :: "int list" where
  "slow = for_yield child"

definition fast :: "int list" where
  "fast = yield_from child"


section \<open>Chapter 3, Item 20: raising instead of returning None\<close>

text \<open>
  What the function may hand back: \<open>None\<close> or the float of a quotient. The
  snippet calls it with \<open>int\<close>s (\<open>x, y = 1, 0\<close> and \<open>x, y = 5, 2\<close>).
\<close>

datatype pyval = PyNone | PyFloating pyfloat

text \<open>
  The last of the three definitions of \<open>careful_divide\<close>, the one in force
  after the block has run:
  \<^verbatim>\<open>
  def careful_divide(a, b):
      try:
          return a / b
      except ZeroDivisionError as e:
          raise ValueError('Invalid inputs')
  \<close>
  Only \<open>ZeroDivisionError\<close> is caught; any other exception of the division
  goes on to the caller.
\<close>

definition careful_divide :: "int \<Rightarrow> int \<Rightarrow> exn + pyval" where
  "careful_divide a b =
     (case true_divide a b of
        Inr q \<Rightarrow> Inr (PyFloating q)
      | Inl ZeroDivisionError \<Rightarrow> Inl (ValueError ''Invalid inputs'')
      | Inl e \<Rightarrow> Inl e)"


section \<open>Chapter 4, Item 35: the countdown timer with resets\<close>

text \<open>
  \<^verbatim>\<open>
  class Reset(Exception):
      pass

  def timer(period):
      current = period
      while current:
          current -= 1
          try:
              yield current
          except Reset:
              current = period
  \<close>
  A generator object is its frame: not yet started (only the argument is
  bound), paused at the \<open>yield\<close> with its two locals, or finished.
\<close>

datatype timer_gen = Created int | Suspended int int | Finished

definition timer :: "int \<Rightarrow> timer_gen" where
  "timer period = Created period"

text \<open>
  From the test of \<open>while current:\<close> to the next pause: a non-zero count is
  decremented and yielded, a zero count leaves the loop and the generator
  finishes with \<open>StopIteration\<close>.
\<close>

definition timer_loop :: "int \<Rightarrow> int \<Rightarrow> (exn + int) \<times> timer_gen" where
  "timer_loop period current =
     (if current \<noteq> 0 then (Inr (current - 1), Suspended period (current - 1))
      else (Inl StopIteration, Finished))"

text \<open>\<open>next(it)\<close>: start the body, or resume after the \<open>yield\<close>.\<close>

fun timer_next :: "timer_gen \<Rightarrow> (exn + int) \<times> timer_gen" where
  "timer_next (Created period) = timer_loop period period"
| "timer_next (Suspended period current) = timer_loop period current"
| "timer_next Finished = (Inl StopIteration, Finished)"

text \<open>
  \<open>it.throw(Reset())\<close>: at the pause the exception is raised inside the
  \<open>try\<close>, the handler sets \<open>current = period\<close> and the loop goes on. A
  generator that has not started, or has finished, has no handler around
  the point where the exception is raised: it propagates to the caller and the
  generator is finished.
\<close>

fun timer_throw :: "timer_gen \<Rightarrow> (exn + int) \<times> timer_gen" where
  "timer_throw (Created period) = (Inl Reset, Finished)"
| "timer_throw (Suspended period current) = timer_loop period period"
| "timer_throw Finished = (Inl Reset, Finished)"

text \<open>
  What the driver \<open>run\<close> does with the generator on each round: it throws a
  \<open>Reset\<close> when \<open>check_for_reset()\<close> is true, and calls \<open>next\<close> otherwise.
\<close>

datatype gen_op = Next | Throw_Reset

fun timer_step :: "gen_op \<Rightarrow> timer_gen \<Rightarrow> (exn + int) \<times> timer_gen" where
  "timer_step Next g = timer_next g"
| "timer_step Throw_Reset g = timer_throw g"

fun timer_exec :: "gen_op list \<Rightarrow> timer_gen \<Rightarrow> timer_gen" where
  "timer_exec [] g = g"
| "timer_exec (op # ops) g = timer_exec ops (snd (timer_step op g))"

text \<open>
  Iterating the generator with no resets (\<open>for current in timer(period)\<close>):
  \<open>next\<close> is called until it raises \<open>StopIteration\<close>. A negative period counts
  down forever, so the loop is bounded by fuel: \<open>None\<close> is "did not stop
  within the fuel".
\<close>

fun timer_values :: "nat \<Rightarrow> timer_gen \<Rightarrow> int list option" where
  "timer_values 0 g = None"
| "timer_values (Suc fuel) g =
     (case timer_next g of
        (Inr v, g') \<Rightarrow> map_option (Cons v) (timer_values fuel g')
      | (Inl e, g') \<Rightarrow> Some [])"

text \<open>
  \<^verbatim>\<open>
  class Timer:
      def __init__(self, period):
          self.current = period
          self.period = period

      def reset(self):
          self.current = self.period

      def __iter__(self):
          while self.current:
              self.current -= 1
              yield self.current
  \<close>
  The object's two fields are shared between the caller, who may call
  \<open>reset\<close>, and the generator that \<open>__iter__\<close> returns, whose own state is only
  where it stands.
\<close>

record Timer =
  current :: int
  period :: int

datatype iter_pc = Not_started | At_yield | Exhausted

definition Timer_init :: "int \<Rightarrow> Timer" where
  "Timer_init p = \<lparr>current = p, period = p\<rparr>"

definition reset :: "Timer \<Rightarrow> Timer" where
  "reset self = self\<lparr>current := period self\<rparr>"

definition Timer_iter :: "Timer \<Rightarrow> Timer \<times> iter_pc" where
  "Timer_iter self = (self, Not_started)"

fun iter_next :: "Timer \<times> iter_pc \<Rightarrow> (exn + int) \<times> (Timer \<times> iter_pc)" where
  "iter_next (self, Exhausted) = (Inl StopIteration, (self, Exhausted))"
| "iter_next (self, pc) =
     (if current self \<noteq> 0
      then (Inr (current self - 1), (self\<lparr>current := current self - 1\<rparr>, At_yield))
      else (Inl StopIteration, (self, Exhausted)))"

text \<open>
  What the second \<open>run\<close> does between two values: the \<open>for\<close> statement asks
  for the next value, and the body may call \<open>timer.reset()\<close>.
\<close>

datatype Timer_op = Next_value | Call_reset

fun Timer_step :: "Timer_op \<Rightarrow> Timer \<times> iter_pc \<Rightarrow> Timer \<times> iter_pc" where
  "Timer_step Next_value s = snd (iter_next s)"
| "Timer_step Call_reset (self, pc) = (reset self, pc)"

fun Timer_exec :: "Timer_op list \<Rightarrow> Timer \<times> iter_pc \<Rightarrow> Timer \<times> iter_pc" where
  "Timer_exec [] s = s"
| "Timer_exec (op # ops) s = Timer_exec ops (Timer_step op s)"

fun Timer_values :: "nat \<Rightarrow> Timer \<times> iter_pc \<Rightarrow> int list option" where
  "Timer_values 0 s = None"
| "Timer_values (Suc fuel) s =
     (case iter_next s of
        (Inr v, s') \<Rightarrow> map_option (Cons v) (Timer_values fuel s')
      | (Inl e, s') \<Rightarrow> Some [])"

text \<open>
  The states the two timers can be in for a given period: the generator's
  frame, and the object together with its iterator.
\<close>

definition timer_gen_ok :: "int \<Rightarrow> timer_gen \<Rightarrow> bool" where
  "timer_gen_ok p g =
     (case g of
        Created q \<Rightarrow> q = p
      | Suspended q c \<Rightarrow> q = p \<and> 0 \<le> c \<and> c < p
      | Finished \<Rightarrow> True)"

definition Timer_ok :: "int \<Rightarrow> Timer \<times> iter_pc \<Rightarrow> bool" where
  "Timer_ok p s =
     (period (fst s) = p \<and> 0 \<le> current (fst s) \<and> current (fst s) \<le> p
      \<and> (if snd s = At_yield then 1 \<le> p else True))"


section \<open>Chapter 4, Item 31: being defensive when iterating over arguments\<close>

text \<open>
  What the functions of this item are given. A container hands out a fresh
  iterator over its items each time it is iterated. An iterator yields what
  is left of its items once, and \<open>iter\<close> returns the iterator itself. The two
  tests of the item look at different things: \<open>iter(numbers) is numbers\<close> asks
  whether \<open>__iter__\<close> returns the object itself, \<open>isinstance(numbers, Iterator)\<close>
  asks whether the object's class has both \<open>__iter__\<close> and \<open>__next__\<close>. They
  differ on a container whose class also defines \<open>__next__\<close>
  (\<open>Container_with_next\<close>): it is an instance of \<open>Iterator\<close>, and \<open>iter\<close> gives a
  fresh iterator, not the object.
\<close>

datatype 'a iterable =
    Container "'a list"
  | Iterator "'a list"
  | Container_with_next "'a list"

text \<open>
  Going through an iterable to its end (as \<open>sum\<close> and \<open>for\<close> do): the items
  seen, and the iterable afterwards. An iterator is left exhausted.
\<close>

fun consume :: "'a iterable \<Rightarrow> 'a list \<times> 'a iterable" where
  "consume (Container xs) = (xs, Container xs)"
| "consume (Iterator xs) = (xs, Iterator [])"
| "consume (Container_with_next xs) = (xs, Container_with_next xs)"

text \<open>\<open>iter(numbers) is numbers\<close>, and \<open>isinstance(numbers, Iterator)\<close>.\<close>

fun iter_is_self :: "'a iterable \<Rightarrow> bool" where
  "iter_is_self (Container xs) = False"
| "iter_is_self (Iterator xs) = True"
| "iter_is_self (Container_with_next xs) = False"

fun isinstance_Iterator :: "'a iterable \<Rightarrow> bool" where
  "isinstance_Iterator (Container xs) = False"
| "isinstance_Iterator (Iterator xs) = True"
| "isinstance_Iterator (Container_with_next xs) = True"

text \<open>
  \<^verbatim>\<open>
  def normalize(numbers):
      total = sum(numbers)
      result = []
      for value in numbers:
          percent = 100 * value / total
          result.append(percent)
      return result
  \<close>
  The numbers are \<open>int\<close>s (\<open>visits = [15, 35, 80]\<close>, or \<open>int(line)\<close> for the lines
  of a file). The loop carries \<open>result\<close>; the division is that of two ints
  and raises when \<open>total\<close> (here \<open>tot\<close>) is zero or the quotient is too large.
\<close>

fun percent_loop :: "int \<Rightarrow> pyfloat list \<Rightarrow> int list \<Rightarrow> exn + pyfloat list" where
  "percent_loop tot result [] = Inr result"
| "percent_loop tot result (value # rest) =
     (case true_divide (100 * value) tot of
        Inl e \<Rightarrow> Inl e
      | Inr percent \<Rightarrow> percent_loop tot (result @ [percent]) rest)"

definition normalize :: "int iterable \<Rightarrow> exn + pyfloat list" where
  "normalize numbers =
     (let (summed, numbers') = consume numbers;
          tot = sum_list summed
      in percent_loop tot [] (fst (consume numbers')))"

text \<open>
  \<^verbatim>\<open>
  def normalize_defensive(numbers):
      if iter(numbers) is numbers:  # An iterator -- bad!
          raise TypeError('Must supply a container')
      total = sum(numbers)
      result = []
      for value in numbers:
          percent = 100 * value / total
          result.append(percent)
      return result
  \<close>
  and its second definition, which differs in the test only:
  \<^verbatim>\<open>
      if isinstance(numbers, Iterator):  # Another way to check
          raise TypeError('Must supply a container')
  \<close>
\<close>

definition normalize_defensive_iter :: "int iterable \<Rightarrow> exn + pyfloat list" where
  "normalize_defensive_iter numbers =
     (if iter_is_self numbers then Inl (TypeError ''Must supply a container'')
      else let (summed, numbers') = consume numbers;
               tot = sum_list summed
           in percent_loop tot [] (fst (consume numbers')))"

definition normalize_defensive :: "int iterable \<Rightarrow> exn + pyfloat list" where
  "normalize_defensive numbers =
     (if isinstance_Iterator numbers then Inl (TypeError ''Must supply a container'')
      else let (summed, numbers') = consume numbers;
               tot = sum_list summed
           in percent_loop tot [] (fst (consume numbers')))"

text \<open>
  The \<open>def\<close> and \<open>class\<close> statements of Items 30 to 36 (lines 165 to the end
  of the file), methods included, in the order of the file: the line of the
  statement, the name it binds, and the exceptions of the \<open>raise\<close> statements
  in its body. The only \<open>raise\<close> statements of these items are at lines 337
  and 353.
\<close>

definition generator_material :: "(nat \<times> string \<times> string list) list" where
  "generator_material =
     [(171, ''index_words_iter'', []),
      (197, ''index_file'', []),
      (226, ''normalize'', []),
      (236, ''read_visits'', []),
      (263, ''normalize_copy'', []),
      (284, ''normalize_func'', []),
      (307, ''ReadVisits'', []),
      (308, ''__init__'', []),
      (311, ''__iter__'', []),
      (335, ''normalize_defensive'', [''TypeError'']),
      (351, ''normalize_defensive'', [''TypeError'']),
      (400, ''move'', []),
      (405, ''pause'', []),
      (414, ''animate'', []),
      (424, ''render'', []),
      (430, ''run'', []),
      (443, ''animate_composed'', []),
      (456, ''child'', []),
      (461, ''slow'', []),
      (466, ''fast'', []),
      (500, ''wave'', []),
      (510, ''transmit'', []),
      (517, ''run'', []),
      (533, ''my_generator'', []),
      (562, ''wave_modulating'', []),
      (573, ''run_modulating'', []),
      (590, ''complex_wave'', []),
      (602, ''wave_cascading'', []),
      (613, ''complex_wave_cascading'', []),
      (619, ''run_cascading'', []),
      (642, ''MyError'', []),
      (646, ''my_generator'', []),
      (661, ''my_generator'', []),
      (684, ''Reset'', []),
      (688, ''timer'', []),
      (701, ''check_for_reset'', []),
      (706, ''announce'', []),
      (710, ''run'', []),
      (729, ''Timer'', []),
      (730, ''__init__'', []),
      (734, ''reset'', []),
      (737, ''__iter__'', []),
      (743, ''run'', []),
      (839, ''sum_modulo_20'', [])]"

definition raises_own :: "nat \<times> string \<times> string list \<Rightarrow> bool" where
  "raises_own entry = (snd (snd entry) \<noteq> [])"


section \<open>Chapter 1, Item 3: bytes and str\<close>

text \<open>
  A \<open>bytes\<close> value is a sequence of 8-bit values; a \<open>str\<close> value is a sequence
  of Unicode code points, each below \<open>0x110000\<close>. A \<open>str\<close> may hold any such
  code point, the surrogates \<open>0xD800..0xDFFF\<close> included.
\<close>

type_synonym byte = "8 word"

type_synonym codepoint = nat

datatype bytes_or_str = Bytes "byte list" | Str "codepoint list"

definition is_codepoint :: "codepoint \<Rightarrow> bool" where
  "is_codepoint c = (c < 0x110000)"

definition is_surrogate :: "codepoint \<Rightarrow> bool" where
  "is_surrogate c = (0xD800 \<le> c \<and> c < 0xE000)"

subsection \<open>The UTF-8 codec\<close>

text \<open>
  \<open>str.encode('utf-8')\<close>: one to four bytes for each code point; a surrogate
  cannot be encoded and makes the call raise \<open>UnicodeEncodeError\<close> (here
  \<open>None\<close>).
\<close>

definition utf8_encode_cp :: "codepoint \<Rightarrow> byte list option" where
  "utf8_encode_cp c =
     (if c < 0x80 then Some [of_nat c]
      else if c < 0x800 then Some [of_nat (0xC0 + c div 64), of_nat (0x80 + c mod 64)]
      else if is_surrogate c then None
      else if c < 0x10000 then
        Some [of_nat (0xE0 + c div 4096), of_nat (0x80 + c div 64 mod 64),
              of_nat (0x80 + c mod 64)]
      else if c < 0x110000 then
        Some [of_nat (0xF0 + c div 262144), of_nat (0x80 + c div 4096 mod 64),
              of_nat (0x80 + c div 64 mod 64), of_nat (0x80 + c mod 64)]
      else None)"

fun utf8_encode :: "codepoint list \<Rightarrow> byte list option" where
  "utf8_encode [] = Some []"
| "utf8_encode (c # cs) =
     (case utf8_encode_cp c of
        None \<Rightarrow> None
      | Some bs \<Rightarrow> map_option ((@) bs) (utf8_encode cs))"

text \<open>
  \<open>bytes.decode('utf-8')\<close>, strict: a lead byte says how many continuation
  bytes (\<open>0x80..0xBF\<close>) follow; a sequence that is cut short, is longer than
  its code point needs, or gives a surrogate or a value from \<open>0x110000\<close> on
  makes the call raise \<open>UnicodeDecodeError\<close> (here \<open>None\<close>).
\<close>

definition is_continuation :: "byte \<Rightarrow> bool" where
  "is_continuation b = (0x80 \<le> unat b \<and> unat b < 0xC0)"

definition payload :: "byte \<Rightarrow> nat" where
  "payload b = unat b - 0x80"

fun utf8_decode :: "byte list \<Rightarrow> codepoint list option" where
  "utf8_decode [] = Some []"
| "utf8_decode (b0 # rest) =
     (if unat b0 < 0x80 then map_option (Cons (unat b0)) (utf8_decode rest)
      else if unat b0 < 0xC0 then None
      else if unat b0 < 0xE0 then
        (case rest of
           b1 # rest1 \<Rightarrow>
             (let c = (unat b0 - 0xC0) * 64 + payload b1
              in if is_continuation b1 \<and> 0x80 \<le> c
                 then map_option (Cons c) (utf8_decode rest1) else None)
         | _ \<Rightarrow> None)
      else if unat b0 < 0xF0 then
        (case rest of
           b1 # b2 # rest2 \<Rightarrow>
             (let c = (unat b0 - 0xE0) * 4096 + payload b1 * 64 + payload b2
              in if is_continuation b1 \<and> is_continuation b2 \<and> 0x800 \<le> c
                    \<and> \<not> is_surrogate c
                 then map_option (Cons c) (utf8_decode rest2) else None)
         | _ \<Rightarrow> None)
      else if unat b0 < 0xF8 then
        (case rest of
           b1 # b2 # b3 # rest3 \<Rightarrow>
             (let c = (unat b0 - 0xF0) * 262144 + payload b1 * 4096 + payload b2 * 64
                      + payload b3
              in if is_continuation b1 \<and> is_continuation b2 \<and> is_continuation b3
                    \<and> 0x10000 \<le> c \<and> c < 0x110000
                 then map_option (Cons c) (utf8_decode rest3) else None)
         | _ \<Rightarrow> None)
      else None)"

subsection \<open>The two helpers\<close>

text \<open>
  \<^verbatim>\<open>
  def to_str(bytes_or_str):
      if isinstance(bytes_or_str, bytes):
          value = bytes_or_str.decode('utf-8')
      else:
          value = bytes_or_str
      return value  # Instance of str

  def to_bytes(bytes_or_str):
      if isinstance(bytes_or_str, str):
          value = bytes_or_str.encode('utf-8')
      else:
          value = bytes_or_str
      return value  # Instance of bytes
  \<close>
\<close>

fun to_str :: "bytes_or_str \<Rightarrow> exn + bytes_or_str" where
  "to_str (Bytes bs) =
     (case utf8_decode bs of None \<Rightarrow> Inl UnicodeDecodeError | Some s \<Rightarrow> Inr (Str s))"
| "to_str (Str s) = Inr (Str s)"

fun to_bytes :: "bytes_or_str \<Rightarrow> exn + bytes_or_str" where
  "to_bytes (Str s) =
     (case utf8_encode s of None \<Rightarrow> Inl UnicodeEncodeError | Some bs \<Rightarrow> Inr (Bytes bs))"
| "to_bytes (Bytes bs) = Inr (Bytes bs)"

text \<open>Calling one helper on the result of the other; an exception ends the chain.\<close>

definition and_then :: "exn + 'a \<Rightarrow> ('a \<Rightarrow> exn + 'b) \<Rightarrow> exn + 'b" where
  "and_then r f = (case r of Inl e \<Rightarrow> Inl e | Inr v \<Rightarrow> f v)"


section \<open>Chapter 1, Item 3: writing and reading data.bin\<close>

text \<open>
  The files the snippet touches: a file system maps a path to the bytes
  stored under it.
\<close>

type_synonym filesystem = "string \<rightharpoonup> byte list"

datatype encoding = Utf8 | Cp1252

text \<open>
  \<^verbatim>\<open>
  with open('data.bin', 'wb') as f:
      f.write(b'\xf1\xf2\xf3\xf4\xf5')
  \<close>
  Opening for writing creates the file or empties it; the bytes written are
  then its content.
\<close>

definition open_wb_write :: "filesystem \<Rightarrow> string \<Rightarrow> byte list \<Rightarrow> filesystem" where
  "open_wb_write fs path written = fs(path \<mapsto> written)"

text \<open>
  \<^verbatim>\<open>
  with open('data.bin', 'w') as f:
      f.write(b'\xf1\xf2\xf3\xf4\xf5')
  \<close>
  A handle in text mode takes \<open>str\<close> only: given \<open>bytes\<close>, as here, \<open>write\<close>
  raises \<open>TypeError\<close>, after \<open>open\<close> has emptied the file. The result is the
  exception and the file system left behind.
\<close>

definition open_w_write :: "filesystem \<Rightarrow> string \<Rightarrow> byte list \<Rightarrow> exn \<times> filesystem" where
  "open_w_write fs path written =
     (TypeError ''write() argument must be str, not bytes'', fs(path \<mapsto> []))"

text \<open>
  \<^verbatim>\<open>
  with open('data.bin', 'rb') as f:
      data = f.read()
  \<close>
\<close>

definition open_rb_read :: "filesystem \<Rightarrow> string \<Rightarrow> exn + byte list" where
  "open_rb_read fs path =
     (case fs path of None \<Rightarrow> Inl FileNotFoundError | Some bs \<Rightarrow> Inr bs)"

text \<open>
  The \<open>cp1252\<close> codec decodes one byte to one code point: itself below
  \<open>0x80\<close> and from \<open>0xA0\<close> on, the entry of this table in between, where five
  bytes (\<open>0x81\<close>, \<open>0x8D\<close>, \<open>0x8F\<close>, \<open>0x90\<close>, \<open>0x9D\<close>) have no character.
\<close>

definition cp1252_high :: "codepoint option list" where
  "cp1252_high =
     [Some 0x20AC, None,        Some 0x201A, Some 0x0192,
      Some 0x201E, Some 0x2026, Some 0x2020, Some 0x2021,
      Some 0x02C6, Some 0x2030, Some 0x0160, Some 0x2039,
      Some 0x0152, None,        Some 0x017D, None,
      None,        Some 0x2018, Some 0x2019, Some 0x201C,
      Some 0x201D, Some 0x2022, Some 0x2013, Some 0x2014,
      Some 0x02DC, Some 0x2122, Some 0x0161, Some 0x203A,
      Some 0x0153, None,        Some 0x017E, Some 0x0178]"

definition cp1252_decode_byte :: "byte \<Rightarrow> codepoint option" where
  "cp1252_decode_byte b =
     (if unat b < 0x80 \<or> 0xA0 \<le> unat b then Some (unat b)
      else cp1252_high ! (unat b - 0x80))"

fun cp1252_decode :: "byte list \<Rightarrow> codepoint list option" where
  "cp1252_decode [] = Some []"
| "cp1252_decode (b # bs) =
     (case cp1252_decode_byte b of
        None \<Rightarrow> None
      | Some c \<Rightarrow> map_option (Cons c) (cp1252_decode bs))"

fun decode_with :: "encoding \<Rightarrow> byte list \<Rightarrow> codepoint list option" where
  "decode_with Utf8 bs = utf8_decode bs"
| "decode_with Cp1252 bs = cp1252_decode bs"

text \<open>
  Reading in text mode turns the line endings \<open>\r\n\<close> and \<open>\r\<close> into
  \<open>\n\<close> (13 is the carriage return, 10 the line feed).
\<close>

fun universal_newlines :: "codepoint list \<Rightarrow> codepoint list" where
  "universal_newlines [] = []"
| "universal_newlines [c] = [if c = 13 then 10 else c]"
| "universal_newlines (c # d # rest) =
     (if c = 13 \<and> d = 10 then 10 # universal_newlines rest
      else if c = 13 then 10 # universal_newlines (d # rest)
      else c # universal_newlines (d # rest))"

text \<open>
  \<^verbatim>\<open>
  with open('data.bin', 'r', encoding='cp1252') as f:
      data = f.read()
  \<close>
  Without the \<open>encoding\<close> argument the platform's default is used, on most
  systems UTF-8; it is a parameter here.
\<close>

definition open_r_read :: "filesystem \<Rightarrow> string \<Rightarrow> encoding \<Rightarrow> exn + codepoint list" where
  "open_r_read fs path enc =
     (case fs path of
        None \<Rightarrow> Inl FileNotFoundError
      | Some bs \<Rightarrow>
          (case decode_with enc bs of
             None \<Rightarrow> Inl UnicodeDecodeError
           | Some s \<Rightarrow> Inr (universal_newlines s)))"


section \<open>Chapter 1, Item 7: the random bits\<close>

text \<open>
  \<^verbatim>\<open>
  from random import randint
  random_bits = 0
  for i in range(32):
      if randint(0, 1):
          random_bits |= 1 << i
  print(bin(random_bits))
  \<close>
  What \<open>randint\<close> returns is not decided by the program. A run is given the
  values its calls return, \<open>randint k\<close> for the call number \<open>k\<close> (counted from
  0); the loop threads the number of calls made so far.
\<close>

fun random_bits_loop :: "(nat \<Rightarrow> int) \<Rightarrow> nat \<Rightarrow> int list \<Rightarrow> int \<Rightarrow> int" where
  "random_bits_loop randint calls [] random_bits = random_bits"
| "random_bits_loop randint calls (i # rest) random_bits =
     random_bits_loop randint (Suc calls) rest
       (if randint calls \<noteq> 0 then random_bits OR push_bit (nat i) 1 else random_bits)"

definition random_bits :: "(nat \<Rightarrow> int) \<Rightarrow> int" where
  "random_bits randint = random_bits_loop randint 0 (py_range 0 32) 0"

text \<open>
  The built-in \<open>bin\<close>: the binary digits of the absolute value, most
  significant first, after the prefix \<open>0b\<close> and the sign.
\<close>

fun bin_digits :: "nat \<Rightarrow> string" where
  "bin_digits n =
     (if n < 2 then [if n = 0 then CHR ''0'' else CHR ''1'']
      else bin_digits (n div 2) @ [if n mod 2 = 0 then CHR ''0'' else CHR ''1''])"

declare bin_digits.simps [simp del]

definition bin :: "int \<Rightarrow> string" where
  "bin n = (if n < 0 then ''-0b'' @ bin_digits (nat (- n)) else ''0b'' @ bin_digits (nat n))"

text \<open>The line the snippet prints in a run.\<close>

definition print_random_bits :: "(nat \<Rightarrow> int) \<Rightarrow> string" where
  "print_random_bits randint = bin (random_bits randint)"


section \<open>Chapter 1, Item 4: the three ways of formatting\<close>

text \<open>
  The values the snippet formats are a \<open>str\<close> and a \<open>float\<close>. A float is the
  rational number its binary representation denotes. Formatting returns the
  string, raises, or falls outside the part of the two format languages that
  is modelled here (the directives of the snippet and their neighbours).
\<close>

datatype fvalue = VStr string | VFloat rat

datatype fmt_result = Formatted string | Raised exn | Not_modelled

definition then_append :: "fmt_result \<Rightarrow> fmt_result \<Rightarrow> fmt_result" where
  "then_append first second =
     (case first of
        Formatted a \<Rightarrow> (case second of Formatted b \<Rightarrow> Formatted (a @ b) | other \<Rightarrow> other)
      | other \<Rightarrow> other)"

subsection \<open>Digits, padding and fixed-point notation\<close>

definition is_digit :: "char \<Rightarrow> bool" where
  "is_digit c = (c \<in> set ''0123456789'')"

definition number_of :: "string \<Rightarrow> nat" where
  "number_of ds = foldl (\<lambda>n c. 10 * n + (of_char c - 48)) 0 ds"

fun dec_digits :: "nat \<Rightarrow> string" where
  "dec_digits n =
     (if n < 10 then [''0123456789'' ! n]
      else dec_digits (n div 10) @ [''0123456789'' ! (n mod 10)])"

declare dec_digits.simps [simp del]

text \<open>
  The presentation type \<open>f\<close>: the number rounded to \<open>prec\<close> digits after the
  point, all of them written.
\<close>

definition fixed_point :: "nat \<Rightarrow> rat \<Rightarrow> string" where
  "fixed_point prec x =
     (let n = nat (round_half_even (\<bar>x\<bar> * 10 ^ prec));
          whole = dec_digits (n div 10 ^ prec);
          frac = dec_digits (n mod 10 ^ prec)
      in (if x < 0 then ''-'' else [])
         @ whole
         @ (if prec = 0 then []
            else ''.'' @ replicate (prec - length frac) (CHR ''0'') @ frac))"

definition pad :: "char \<Rightarrow> char \<Rightarrow> nat \<Rightarrow> string \<Rightarrow> string" where
  "pad fill_char align_char w s =
     (let missing = w - length s
      in if align_char = CHR ''<'' then s @ replicate missing fill_char
         else if align_char = CHR ''^'' then
           replicate (missing div 2) fill_char @ s
           @ replicate (missing - missing div 2) fill_char
         else replicate missing fill_char @ s)"

subsection \<open>The format specification of format, str.format and f-strings\<close>

text \<open>
  \<open>[[fill]align][width][.precision][type]\<close>; the sign, \<open>#\<close>, \<open>0\<close> and
  grouping options are not modelled.
\<close>

record format_spec =
  fill :: char
  align :: "char option"
  width :: nat
  precision :: "nat option"
  kind :: "char option"

definition is_align :: "char \<Rightarrow> bool" where
  "is_align c = (c \<in> set ''<>^'')"

definition take_align :: "string \<Rightarrow> char \<times> char option \<times> string" where
  "take_align s =
     (if 2 \<le> length s \<and> is_align (s ! 1) then (s ! 0, Some (s ! 1), drop 2 s)
      else if 1 \<le> length s \<and> is_align (s ! 0) then (CHR '' '', Some (s ! 0), drop 1 s)
      else (CHR '' '', None, s))"

definition take_precision :: "string \<Rightarrow> (nat option \<times> string) option" where
  "take_precision s =
     (case s of
        [] \<Rightarrow> Some (None, [])
      | c # rest \<Rightarrow>
          if c = CHR ''.'' then
            (if takeWhile is_digit rest = [] then None
             else Some (Some (number_of (takeWhile is_digit rest)), dropWhile is_digit rest))
          else Some (None, s))"

definition parse_format_spec :: "string \<Rightarrow> format_spec option" where
  "parse_format_spec s =
     (case take_align s of
        (f, a, after_align) \<Rightarrow>
          (let digits = takeWhile is_digit after_align;
               after_width = dropWhile is_digit after_align
           in if digits \<noteq> [] \<and> hd digits = CHR ''0'' then None
              else
                (case take_precision after_width of
                   None \<Rightarrow> None
                 | Some (p, after_precision) \<Rightarrow>
                     (case after_precision of
                        [] \<Rightarrow>
                          Some \<lparr>fill = f, align = a, width = number_of digits,
                                precision = p, kind = None\<rparr>
                      | [k] \<Rightarrow>
                          Some \<lparr>fill = f, align = a, width = number_of digits,
                                precision = p, kind = Some k\<rparr>
                      | _ \<Rightarrow> None))))"

text \<open>
  \<open>format(value, spec)\<close>: a \<open>str\<close> is cut to the precision and padded, to the
  left unless told otherwise; a \<open>float\<close> of type \<open>f\<close> is written in fixed-point
  notation (six digits unless told otherwise) and padded, to the right unless
  told otherwise.
\<close>

definition format_value :: "fvalue \<Rightarrow> format_spec \<Rightarrow> fmt_result" where
  "format_value v spec =
     (case v of
        VStr s \<Rightarrow>
          (if kind spec = None \<or> kind spec = Some (CHR ''s'') then
             Formatted
               (pad (fill spec) (case align spec of None \<Rightarrow> CHR ''<'' | Some a \<Rightarrow> a)
                  (width spec)
                  (case precision spec of None \<Rightarrow> s | Some p \<Rightarrow> take p s))
           else Raised (ValueError (''Unknown format code '' @ [CHR 0x27, the (kind spec), CHR 0x27]
                  @ '' for object of type '' @ [CHR 0x27] @ ''str'' @ [CHR 0x27])))
      | VFloat x \<Rightarrow>
          (if kind spec = Some (CHR ''f'') then
             Formatted
               (pad (fill spec) (case align spec of None \<Rightarrow> CHR ''>'' | Some a \<Rightarrow> a)
                  (width spec)
                  (fixed_point (case precision spec of None \<Rightarrow> 6 | Some p \<Rightarrow> p) x))
           else Not_modelled))"

definition format_builtin :: "fvalue \<Rightarrow> string \<Rightarrow> fmt_result" where
  "format_builtin v spec_text =
     (case parse_format_spec spec_text of
        None \<Rightarrow> Not_modelled
      | Some spec \<Rightarrow> format_value v spec)"

subsection \<open>The operator \<open>%\<close> on a format string\<close>

text \<open>
  A conversion specifier is \<open>%\<close>, a mapping key in parentheses (optional),
  flags, a minimum width, a precision after a point, and the conversion type,
  which ends it. Of the flags only \<open>-\<close> is modelled. The format string is cut
  into its literal characters and its specifiers first.
\<close>

datatype ptoken = PLit char | PSpec string | PIncomplete

datatype pscan = Outside | Inside string bool

definition is_conversion_type :: "char \<Rightarrow> bool" where
  "is_conversion_type c = (c \<in> set ''diouxXeEfFgGcrsa%'')"

fun percent_tokens :: "string \<Rightarrow> pscan \<Rightarrow> ptoken list" where
  "percent_tokens [] Outside = []"
| "percent_tokens [] (Inside seen in_key) = [PIncomplete]"
| "percent_tokens (c # cs) Outside =
     (if c = CHR ''%'' then percent_tokens cs (Inside [] False)
      else PLit c # percent_tokens cs Outside)"
| "percent_tokens (c # cs) (Inside seen in_key) =
     (if in_key then percent_tokens cs (Inside (seen @ [c]) (c \<noteq> CHR '')''))
      else if c = CHR ''('' then percent_tokens cs (Inside (seen @ [c]) True)
      else if is_conversion_type c then PSpec (seen @ [c]) # percent_tokens cs Outside
      else percent_tokens cs (Inside (seen @ [c]) False))"

record specifier =
  mapping_key :: "string option"
  left_adjust :: bool
  min_width :: nat
  spec_precision :: "nat option"
  conversion :: char

definition take_key :: "string \<Rightarrow> string option \<times> string" where
  "take_key s =
     (case s of
        [] \<Rightarrow> (None, [])
      | c # rest \<Rightarrow>
          if c = CHR ''('' then
            (Some (takeWhile (\<lambda>d. d \<noteq> CHR '')'') rest),
             drop 1 (dropWhile (\<lambda>d. d \<noteq> CHR '')'') rest))
          else (None, s))"

definition parse_specifier :: "string \<Rightarrow> specifier option" where
  "parse_specifier s =
     (case take_key s of
        (k, after_key) \<Rightarrow>
          (let flags = takeWhile (\<lambda>c. c = CHR ''-'') after_key;
               after_flags = dropWhile (\<lambda>c. c = CHR ''-'') after_key;
               digits = takeWhile is_digit after_flags;
               after_width = dropWhile is_digit after_flags
           in if digits \<noteq> [] \<and> hd digits = CHR ''0'' then None
              else
                (case take_precision after_width of
                   None \<Rightarrow> None
                 | Some (p, after_precision) \<Rightarrow>
                     (case after_precision of
                        [t] \<Rightarrow>
                          Some \<lparr>mapping_key = k, left_adjust = (flags \<noteq> []),
                                min_width = number_of digits, spec_precision = p,
                                conversion = t\<rparr>
                      | _ \<Rightarrow> None))))"

text \<open>
  Converting one value: \<open>s\<close> on a \<open>str\<close> and \<open>f\<close> on a \<open>float\<close>; \<open>f\<close> on a
  \<open>str\<close> raises; everything else is not modelled.
\<close>

definition convert :: "specifier \<Rightarrow> fvalue \<Rightarrow> fmt_result" where
  "convert sp v =
     (let side = (if left_adjust sp then CHR ''<'' else CHR ''>'')
      in if conversion sp = CHR ''s'' then
           (case v of
              VStr s \<Rightarrow>
                Formatted
                  (pad (CHR '' '') side (min_width sp)
                     (case spec_precision sp of None \<Rightarrow> s | Some p \<Rightarrow> take p s))
            | VFloat x \<Rightarrow> Not_modelled)
         else if conversion sp = CHR ''f'' then
           (case v of
              VStr s \<Rightarrow> Raised (TypeError ''must be real number, not str'')
            | VFloat x \<Rightarrow>
                Formatted
                  (pad (CHR '' '') side (min_width sp)
                     (fixed_point (case spec_precision sp of None \<Rightarrow> 6 | Some p \<Rightarrow> p) x)))
         else Not_modelled)"

text \<open>
  The right operand: a tuple, whose items the specifiers take in order, or a
  dictionary, from which each specifier takes the item under its key. A
  dictionary is the list of its items in insertion order.
\<close>

datatype fargs = Tuple "fvalue list" | Dict "(string \<times> fvalue) list"

fun percent_apply :: "ptoken list \<Rightarrow> fargs \<Rightarrow> fmt_result" where
  "percent_apply [] (Tuple []) = Formatted []"
| "percent_apply [] (Tuple (v # vs)) =
     Raised (TypeError ''not all arguments converted during string formatting'')"
| "percent_apply [] (Dict items) = Formatted []"
| "percent_apply (PLit c # ts) args = then_append (Formatted [c]) (percent_apply ts args)"
| "percent_apply (PIncomplete # ts) args = Raised (ValueError ''incomplete format'')"
| "percent_apply (PSpec text # ts) args =
     (case parse_specifier text of
        None \<Rightarrow> Not_modelled
      | Some sp \<Rightarrow>
          if conversion sp = CHR ''%'' then then_append (Formatted ''%'') (percent_apply ts args)
          else
            (case mapping_key sp of
               Some k \<Rightarrow>
                 (case args of
                    Dict items \<Rightarrow>
                      (case map_of items k of
                         None \<Rightarrow> Raised (KeyError k)
                       | Some v \<Rightarrow> then_append (convert sp v) (percent_apply ts args))
                  | Tuple vs \<Rightarrow> Raised (TypeError ''format requires a mapping''))
             | None \<Rightarrow>
                 (case args of
                    Tuple [] \<Rightarrow> Raised (TypeError ''not enough arguments for format string'')
                  | Tuple (v # vs) \<Rightarrow> then_append (convert sp v) (percent_apply ts (Tuple vs))
                  | Dict items \<Rightarrow> Not_modelled)))"

definition percent_format :: "string \<Rightarrow> fargs \<Rightarrow> fmt_result" where
  "percent_format template args = percent_apply (percent_tokens template Outside) args"

subsection \<open>The method str.format\<close>

text \<open>
  A replacement field is \<open>{name:spec}\<close>; \<open>{{\<close> and \<open>}}\<close> stand for the braces
  themselves. An empty name takes the next positional argument, digits take
  the positional argument of that index, another name takes the keyword
  argument. Conversions (\<open>!r\<close>) and fields inside a specification are not
  modelled.
\<close>

datatype ftoken = FLit char | FField string | FUnbalanced

datatype fscan = In_text | In_field string

fun format_tokens :: "string \<Rightarrow> fscan \<Rightarrow> ftoken list" where
  "format_tokens [] In_text = []"
| "format_tokens [] (In_field seen) = [FUnbalanced]"
| "format_tokens [c] In_text =
     (if c = CHR ''{'' \<or> c = CHR ''}'' then [FUnbalanced] else [FLit c])"
| "format_tokens (c # d # cs) In_text =
     (if c = CHR ''{'' \<and> d = CHR ''{'' then FLit c # format_tokens cs In_text
      else if c = CHR ''}'' \<and> d = CHR ''}'' then FLit c # format_tokens cs In_text
      else if c = CHR ''{'' then format_tokens (d # cs) (In_field [])
      else if c = CHR ''}'' then [FUnbalanced]
      else FLit c # format_tokens (d # cs) In_text)"
| "format_tokens (c # cs) (In_field seen) =
     (if c = CHR ''}'' then FField seen # format_tokens cs In_text
      else format_tokens cs (In_field (seen @ [c])))"

definition field_name :: "string \<Rightarrow> string" where
  "field_name text = takeWhile (\<lambda>c. c \<noteq> CHR '':'' \<and> c \<noteq> CHR ''!'') text"

definition field_spec :: "string \<Rightarrow> string option" where
  "field_spec text =
     (case dropWhile (\<lambda>c. c \<noteq> CHR '':'' \<and> c \<noteq> CHR ''!'') text of
        [] \<Rightarrow> Some []
      | c # rest \<Rightarrow> if c = CHR '':'' then Some rest else None)"

fun format_apply ::
    "ftoken list \<Rightarrow> nat \<Rightarrow> fvalue list \<Rightarrow> (string \<times> fvalue) list \<Rightarrow> fmt_result" where
  "format_apply [] next args kwargs = Formatted []"
| "format_apply (FLit c # ts) next args kwargs =
     then_append (Formatted [c]) (format_apply ts next args kwargs)"
| "format_apply (FUnbalanced # ts) next args kwargs =
     Raised (ValueError ''Single brace encountered in format string'')"
| "format_apply (FField text # ts) next args kwargs =
     (case field_spec text of
        None \<Rightarrow> Not_modelled
      | Some spec_text \<Rightarrow>
          (let name = field_name text
           in if name = [] then
                (if next < length args then
                   then_append (format_builtin (args ! next) spec_text)
                     (format_apply ts (Suc next) args kwargs)
                 else Raised (IndexError ''Replacement index out of range for positional args tuple''))
              else if list_all is_digit name then
                (if number_of name < length args then
                   then_append (format_builtin (args ! number_of name) spec_text)
                     (format_apply ts next args kwargs)
                 else Raised (IndexError ''Replacement index out of range for positional args tuple''))
              else
                (case map_of kwargs name of
                   None \<Rightarrow> Raised (KeyError name)
                 | Some v \<Rightarrow>
                     then_append (format_builtin v spec_text)
                       (format_apply ts next args kwargs))))"

definition str_format :: "string \<Rightarrow> fvalue list \<Rightarrow> (string \<times> fvalue) list \<Rightarrow> fmt_result" where
  "str_format template args kwargs = format_apply (format_tokens template In_text) 0 args kwargs"

subsection \<open>F-strings\<close>

text \<open>
  An f-string is syntax: its literal parts and, for each pair of braces, the
  value of the expression with the specification after the colon, which
  \<open>format\<close> is called with.
\<close>

datatype fpart = FText string | FExpr fvalue string

fun fstring :: "fpart list \<Rightarrow> fmt_result" where
  "fstring [] = Formatted []"
| "fstring (FText s # parts) = then_append (Formatted s) (fstring parts)"
| "fstring (FExpr v spec_text # parts) = then_append (format_builtin v spec_text) (fstring parts)"

subsection \<open>The expressions of the snippet\<close>

text \<open>
  \<^verbatim>\<open>
  key = 'my_var'
  value = 1.234
  old_way = '%-10s = %.2f' % (key, value)
  new_way = '%(key)-10s = %(value).2f' % {'key': key, 'value': value}  # Original
  reordered = '%(key)-10s = %(value).2f' % {'value': value, 'key': key}  # Swapped
  assert old_way == new_way == reordered
  ...
  f_string = f'{key:<10} = {value:.2f}'
  c_tuple  = '%-10s = %.2f' % (key, value)
  str_args = '{:<10} = {:.2f}'.format(key, value)
  str_kw   = '{key:<10} = {value:.2f}'.format(key=key, value=value)
  c_dict   = '%(key)-10s = %(value).2f' % {'key': key, 'value': value}
  assert c_tuple == c_dict == f_string
  assert str_args == str_kw == f_string
  \<close>
  The float nearest to the literal \<open>1.234\<close> is \<open>694680242521899 / 2 ^ 49\<close>. The
  two variables are called \<open>item4_key\<close> and \<open>item4_value\<close> here.
\<close>

definition item4_key :: fvalue where
  "item4_key = VStr ''my_var''"

definition item4_value :: fvalue where
  "item4_value = VFloat (694680242521899 / 562949953421312)"

definition old_way :: fmt_result where
  "old_way = percent_format ''%-10s = %.2f'' (Tuple [item4_key, item4_value])"

definition new_way :: fmt_result where
  "new_way = percent_format ''%(key)-10s = %(value).2f''
     (Dict [(''key'', item4_key), (''value'', item4_value)])"

definition reordered :: fmt_result where
  "reordered = percent_format ''%(key)-10s = %(value).2f''
     (Dict [(''value'', item4_value), (''key'', item4_key)])"

definition f_string :: fmt_result where
  "f_string = fstring [FExpr item4_key ''<10'', FText '' = '', FExpr item4_value ''.2f'']"

definition c_tuple :: fmt_result where
  "c_tuple = percent_format ''%-10s = %.2f'' (Tuple [item4_key, item4_value])"

definition str_args :: fmt_result where
  "str_args = str_format ''{:<10} = {:.2f}'' [item4_key, item4_value] []"

definition str_kw :: fmt_result where
  "str_kw = str_format ''{key:<10} = {value:.2f}'' []
     [(''key'', item4_key), (''value'', item4_value)]"

definition c_dict :: fmt_result where
  "c_dict = percent_format ''%(key)-10s = %(value).2f''
     (Dict [(''key'', item4_key), (''value'', item4_value)])"


section \<open>The names a block binds and reads (Chapter 2, Item 17; Chapter 4, Items 27 and 28)\<close>














section \<open>Properties of the coprimality helpers\<close>

lemma set_py_range: "set (py_range start stop) = {i. start \<le> i \<and> i < stop}"
  by (auto simp: py_range_def)

lemma coprime_loop_iff:
  "coprime_loop a b xs = (\<forall>i \<in> set xs. \<not> (a mod i = 0 \<and> b mod i = 0))"
  by (induction xs) auto

lemma alternate_loop_iff:
  "alternate_loop a b acc xs = (acc \<and> coprime_loop a b xs)"
  by (induction xs) auto

lemma common_divisor_gcd:
  fixes a b :: int
  assumes "1 \<le> a" "1 \<le> b"
  shows "(\<forall>i. 2 \<le> i \<and> i \<le> min a b \<longrightarrow> \<not> (i dvd a \<and> i dvd b)) = (gcd a b = 1)"
proof
  assume none: "\<forall>i. 2 \<le> i \<and> i \<le> min a b \<longrightarrow> \<not> (i dvd a \<and> i dvd b)"
  let ?g = "gcd a b"
  have pos: "0 < ?g" using assms by (simp add: gcd_pos_int)
  have "?g \<le> a" using assms by (intro zdvd_imp_le) auto
  moreover have "?g \<le> b" using assms by (intro zdvd_imp_le) auto
  ultimately have "?g \<le> min a b" by simp
  moreover have "?g dvd a \<and> ?g dvd b" by simp
  ultimately have "\<not> 2 \<le> ?g" using none by blast
  with pos show "?g = 1" by linarith
next
  assume one: "gcd a b = 1"
  show "\<forall>i. 2 \<le> i \<and> i \<le> min a b \<longrightarrow> \<not> (i dvd a \<and> i dvd b)"
  proof (intro allI impI notI)
    fix i :: int
    assume range: "2 \<le> i \<and> i \<le> min a b" and div: "i dvd a \<and> i dvd b"
    from div have "i dvd gcd a b" by simp
    with one have "i dvd 1" by simp
    then have "\<bar>i\<bar> = 1" by simp
    with range show False by linarith
  qed
qed

text \<open>
  Claim C9. For all integers \<open>a \<ge> 1\<close> and \<open>b \<ge> 1\<close> the two helpers return the
  same value, and they return \<open>True\<close> exactly when no integer \<open>i\<close> with
  \<open>2 \<le> i \<le> min(a, b)\<close> divides both \<open>a\<close> and \<open>b\<close>, which is the same as
  \<open>gcd(a, b) = 1\<close>.
\<close>

theorem coprime_helpers_equivalent:
  assumes "1 \<le> a" and "1 \<le> b"
  shows "coprime_py a b = coprime_alternate a b
    \<and> coprime_py a b = (\<forall>i. 2 \<le> i \<and> i \<le> min a b \<longrightarrow> \<not> (i dvd a \<and> i dvd b))
    \<and> coprime_py a b = (gcd a b = 1)"
proof -
  have eq: "coprime_py a b = coprime_alternate a b"
    by (simp add: coprime_py_def coprime_alternate_def alternate_loop_iff)
  have spec: "coprime_py a b = (\<forall>i. 2 \<le> i \<and> i \<le> min a b \<longrightarrow> \<not> (i dvd a \<and> i dvd b))"
    unfolding coprime_py_def coprime_loop_iff set_py_range
    by (auto simp: dvd_eq_mod_eq_0)
  from eq spec common_divisor_gcd [OF assms] show ?thesis by simp
qed

theorem coprime_helpers_equivalent_witness:
  "(1::int) \<le> 4 \<and> (1::int) \<le> 9 \<and> coprime_py 4 9 = coprime_alternate 4 9
    \<and> coprime_py 4 9 \<and> gcd (4::int) 9 = 1"
proof -
  have a: "(1::int) \<le> 4" and b: "(1::int) \<le> 9" by simp_all
  have g: "gcd (4::int) 9 = 1" by code_simp
  note h = coprime_helpers_equivalent [OF a b]
  have e: "coprime_py 4 9 = coprime_alternate 4 9"
    by (rule conjunct1 [OF h])
  have c: "coprime_py 4 9 = (gcd (4::int) 9 = 1)"
    by (rule conjunct2 [OF conjunct2 [OF h]])
  from e c g show ?thesis by simp
qed

section \<open>Properties of the generator compositions\<close>

lemma for_yield_all: "for_yield xs = xs"
  by (induction xs) simp_all

lemma move_replicate: "0 \<le> n \<Longrightarrow> move n v = replicate (nat n) v"
  by (simp add: move_def py_range_def map_replicate_const)

lemma pause_replicate: "0 \<le> n \<Longrightarrow> pause n = replicate (nat n) (PyInt 0)"
  by (simp add: pause_def py_range_def map_replicate_const)

lemma animate_values:
  "animate = [PyFloat 5, PyFloat 5, PyFloat 5, PyFloat 5, PyInt 0, PyInt 0, PyInt 0,
              PyFloat 3, PyFloat 3]"
  by (simp add: animate_def for_yield_all move_replicate pause_replicate numeral_eq_Suc)

lemma child_values: "child = [0..999999]"
  by (simp add: child_def py_range_def)

text \<open>
  Claim C1. The \<open>yield from\<close> versions yield what the explicit loops yield:
  \<open>animate_composed()\<close> and \<open>animate()\<close> both yield four times \<open>5.0\<close>, three
  times \<open>0\<close> and twice \<open>3.0\<close>, in that order, and \<open>fast()\<close> and \<open>slow()\<close> both
  yield the integers from 0 to 999999 in order.
\<close>

theorem yield_from_same_sequence:
  "animate_composed = animate
   \<and> animate = [PyFloat 5, PyFloat 5, PyFloat 5, PyFloat 5, PyInt 0, PyInt 0, PyInt 0,
                PyFloat 3, PyFloat 3]
   \<and> fast = slow
   \<and> slow = [0..999999]
   \<and> length slow = 1000000"
proof -
  have "animate_composed = animate"
    by (simp add: animate_composed_def animate_def yield_from_def for_yield_all)
  moreover have "fast = slow"
    by (simp add: fast_def slow_def yield_from_def for_yield_all)
  moreover have "slow = [0..999999]"
    by (simp add: slow_def for_yield_all child_values)
  moreover have "length slow = 1000000"
    by (simp add: slow_def for_yield_all child_values)
  ultimately show ?thesis using animate_values by simp
qed


section \<open>Properties of the division of ints and of the division helper\<close>

lemma pow2_powi: "pow2 k = 2 powi k"
  by (simp add: pow2_def power_int_def inverse_eq_divide power_one_over)

lemma pow2_add: "pow2 (j + k) = pow2 j * pow2 k"
  by (simp add: pow2_powi power_int_add)

lemma pow2_nat: "pow2 (int n) = 2 ^ n"
  by (simp add: pow2_def)

lemma pow2_pos: "0 < pow2 k"
  by (simp add: pow2_def)

lemma pow2_mono: "j \<le> k \<Longrightarrow> pow2 j \<le> pow2 k"
  by (simp add: pow2_powi power_int_increasing)

lemma bit_length_bounds:
  "0 < n \<Longrightarrow> 2 ^ (bit_length n - 1) \<le> n \<and> n < 2 ^ bit_length n"
proof (induction n rule: bit_length.induct)
  case (1 n)
  show ?case
  proof (cases "n div 2 = 0")
    case True
    with "1.prems" have "n = 1" by presburger
    then show ?thesis by (simp add: bit_length.simps)
  next
    case False
    with "1.IH" "1.prems" have ih: "2 ^ (bit_length (n div 2) - 1) \<le> n div 2"
      "n div 2 < 2 ^ bit_length (n div 2)" by simp_all
    from False have pos: "0 < bit_length (n div 2)" by (subst bit_length.simps) simp
    from "1.prems" have bl: "bit_length n = Suc (bit_length (n div 2))"
      by (subst bit_length.simps) simp
    from pos have e: "2 ^ (bit_length n - 1) = 2 * (2::nat) ^ (bit_length (n div 2) - 1)"
      unfolding bl by (cases "bit_length (n div 2)") simp_all
    from ih(1) have "2 * 2 ^ (bit_length (n div 2) - 1) \<le> n" by linarith
    moreover from ih(2) have "n < 2 * 2 ^ bit_length (n div 2)" by linarith
    ultimately show ?thesis unfolding e unfolding bl by simp
  qed
qed


lemma floor_log2_lower:
  assumes "0 < p" "0 < d"
  shows "pow2 (floor_log2 p d) * of_nat d \<le> of_nat p"
proof -
  let ?k = "int (bit_length p) - int (bit_length d)"
  show ?thesis
  proof (cases "pow2 ?k * of_nat d \<le> of_nat p")
    case True
    then show ?thesis by (simp add: floor_log2_def)
  next
    case False
    then have e: "floor_log2 p d = ?k - 1" by (simp add: floor_log2_def)
    from bit_length_bounds [OF assms(1)] have lp: "(2::nat) ^ (bit_length p - 1) \<le> p" by simp
    from bit_length_bounds [OF assms(2)] have ld: "d < 2 ^ bit_length d" by simp
    from bit_length_bounds [OF assms(1)] have pp: "0 < bit_length p"
      by (cases "bit_length p") (use assms(1) in simp_all)
    have "pow2 (?k - 1) * of_nat d \<le> pow2 (?k - 1) * of_nat (2 ^ bit_length d)"
      using ld pow2_pos [of "?k - 1"] by (intro mult_left_mono) simp_all
    also have "\<dots> = pow2 (?k - 1) * pow2 (int (bit_length d))" by (simp add: pow2_nat)
    also have "\<dots> = pow2 (?k - 1 + int (bit_length d))" by (rule pow2_add [symmetric])
    also have "?k - 1 + int (bit_length d) = int (bit_length p - 1)" using pp by simp
    also have "pow2 (int (bit_length p - 1)) = of_nat (2 ^ (bit_length p - 1))"
      by (simp add: pow2_nat)
    also have "\<dots> \<le> of_nat p" using lp by (simp only: of_nat_le_iff)
    finally show ?thesis unfolding e .
  qed
qed

lemma round_half_even_lower: "\<lfloor>x\<rfloor> \<le> round_half_even x"
  by (simp add: round_half_even_def Let_def)

lemma round_at_least:
  assumes "of_nat n \<le> x"
  shows "of_nat n \<le> (of_int (round_half_even x) :: rat)"
proof -
  from assms have "int n \<le> \<lfloor>x\<rfloor>" by (simp add: le_floor_iff)
  with round_half_even_lower [of x] have "int n \<le> round_half_even x" by linarith
  then have "(of_int (int n) :: rat) \<le> of_int (round_half_even x)" by (simp only: of_int_le_iff)
  then show ?thesis by simp
qed

lemma le_divide: "0 < (c::rat) \<Longrightarrow> a * c \<le> q \<Longrightarrow> a \<le> q / c"
  by (simp add: pos_le_divide_eq)

lemma round_quotient_overflow:
  assumes "0 < d" and "2 ^ 1024 * of_nat d \<le> (of_nat p :: rat)"
  shows "2 ^ 1024 \<le> round_quotient p d"
proof -
  from assms have p: "0 < p" by (cases "p = 0") auto
  let ?q = "of_nat p / of_nat d :: rat"
  from assms have q: "2 ^ 1024 \<le> ?q" by (simp add: pos_le_divide_eq)
  define s where "s = max (floor_log2 p d - 52) (- 1074)"
  have r: "round_quotient p d = of_int (round_half_even (?q / pow2 s)) * pow2 s"
    using p by (simp add: round_quotient_def s_def Let_def)
  show ?thesis
  proof (cases "s \<le> 1024")
    case True
    then have n: "pow2 (1024 - s) = of_nat (2 ^ nat (1024 - s))" by (simp add: pow2_def)
    have "pow2 (1024 - s) * pow2 s = pow2 1024" by (simp add: pow2_add [symmetric])
    then have split: "pow2 (1024 - s) * pow2 s = 2 ^ 1024" by (simp add: pow2_def)
    from q have "pow2 (1024 - s) * pow2 s \<le> ?q" unfolding split .
    then have "pow2 (1024 - s) \<le> ?q / pow2 s" by (rule le_divide [OF pow2_pos])
    then have "of_nat (2 ^ nat (1024 - s)) \<le> (of_int (round_half_even (?q / pow2 s)) :: rat)"
      unfolding n by (rule round_at_least)
    then have "pow2 (1024 - s) * pow2 s \<le> of_int (round_half_even (?q / pow2 s)) * pow2 s"
      unfolding n using pow2_pos [of s] by (intro mult_right_mono) simp_all
    then show ?thesis unfolding r split .
  next
    case False
    then have se: "s = floor_log2 p d - 52" by (simp add: s_def)
    from floor_log2_lower [OF p assms(1)] have "pow2 (floor_log2 p d) \<le> ?q"
      using assms(1) by (simp add: pos_le_divide_eq)
    also have "floor_log2 p d = 52 + s" by (simp add: se)
    finally have "pow2 52 * pow2 s \<le> ?q" by (simp only: pow2_add)
    then have "pow2 52 \<le> ?q / pow2 s" by (rule le_divide [OF pow2_pos])
    moreover have "pow2 52 = of_nat (2 ^ 52)" by (simp add: pow2_def)
    ultimately have "of_nat (2 ^ 52) \<le> ?q / pow2 s" by simp
    then have "of_nat (2 ^ 52) \<le> (of_int (round_half_even (?q / pow2 s)) :: rat)"
      by (rule round_at_least)
    then have "of_nat (2 ^ 52) * pow2 s \<le> of_int (round_half_even (?q / pow2 s)) * pow2 s"
      using pow2_pos [of s] by (intro mult_right_mono) simp_all
    moreover have "of_nat (2 ^ 52) * pow2 s = pow2 (52 + s)"
    proof -
      have "(of_nat (2 ^ 52) :: rat) = pow2 52" by (simp add: pow2_def)
      then show ?thesis by (simp only: pow2_add)
    qed
    moreover from False have "pow2 1024 \<le> pow2 (52 + s)" by (intro pow2_mono) simp
    moreover have "pow2 1024 = 2 ^ 1024" by (simp add: pow2_def)
    ultimately show ?thesis unfolding r by simp
  qed
qed

lemma true_divide_overflow:
  assumes "b \<noteq> 0" and "2 ^ 1024 * \<bar>b\<bar> \<le> \<bar>a\<bar>"
  shows "true_divide a b = Inl (OverflowError ''integer division result too large for a float'')"
proof -
  from assms(1) have d: "0 < nat \<bar>b\<bar>" by simp
  from assms(2) have "(of_int (2 ^ 1024 * \<bar>b\<bar>) :: rat) \<le> of_int \<bar>a\<bar>" by (simp only: of_int_le_iff)
  then have "2 ^ 1024 * of_nat (nat \<bar>b\<bar>) \<le> (of_nat (nat \<bar>a\<bar>) :: rat)" by simp
  from round_quotient_overflow [OF d this] assms(1) show ?thesis
    by (simp add: true_divide_def Let_def)
qed

lemma careful_divide_cases:
  "careful_divide a b =
     (if b = 0 then Inl (ValueError ''Invalid inputs'')
      else case true_divide a b of Inl e \<Rightarrow> Inl e | Inr q \<Rightarrow> Inr (PyFloating q))"
  by (simp add: careful_divide_def true_divide_def Let_def)

text \<open>
  Claim C3 as stated: for every \<open>b \<noteq> 0\<close> the helper returns \<open>a / b\<close>. For the
  ints \<open>a = 10 ** 400\<close> and \<open>b = 1\<close> the division raises \<open>OverflowError\<close>, which
  the helper does not catch: it returns nothing.
\<close>

theorem careful_divide_overflows:
  "(1::int) \<noteq> 0
   \<and> careful_divide (10 ^ 400) 1
       = Inl (OverflowError ''integer division result too large for a float'')
   \<and> \<not> (\<exists>v. careful_divide (10 ^ 400) 1 = Inr v)"
proof -
  have "true_divide (10 ^ 400) 1
      = Inl (OverflowError ''integer division result too large for a float'')"
    by (rule true_divide_overflow) simp_all
  then show ?thesis by (simp add: careful_divide_def)
qed

text \<open>
  Claim C3, amended. For \<open>int\<close> arguments the final \<open>careful_divide\<close> raises
  \<open>ValueError\<close> exactly when \<open>b\<close> is 0. For every \<open>b \<noteq> 0\<close> it does what \<open>a / b\<close>
  does: it returns the quotient as a float exactly when the quotient, rounded
  to a double, is below \<open>2 ** 1024\<close>, and otherwise lets the division's
  \<open>OverflowError\<close> through, as it does whenever \<open>|a| \<ge> 2 ** 1024 * |b|\<close>. It never
  returns \<open>None\<close>.
\<close>

theorem careful_divide_raises:
  "(careful_divide a b = Inl (ValueError ''Invalid inputs'')) = (b = 0)
   \<and> (b \<noteq> 0 \<longrightarrow>
        careful_divide a b
          = (case true_divide a b of Inl e \<Rightarrow> Inl e | Inr q \<Rightarrow> Inr (PyFloating q)))
   \<and> (b \<noteq> 0 \<longrightarrow>
        (\<exists>q. careful_divide a b = Inr (PyFloating q))
          = (round_quotient (nat \<bar>a\<bar>) (nat \<bar>b\<bar>) < 2 ^ 1024))
   \<and> (b \<noteq> 0 \<longrightarrow>
        (careful_divide a b
           = Inl (OverflowError ''integer division result too large for a float''))
          = (2 ^ 1024 \<le> round_quotient (nat \<bar>a\<bar>) (nat \<bar>b\<bar>)))
   \<and> (b \<noteq> 0 \<and> 2 ^ 1024 * \<bar>b\<bar> \<le> \<bar>a\<bar> \<longrightarrow>
        careful_divide a b
          = Inl (OverflowError ''integer division result too large for a float''))
   \<and> careful_divide a b \<noteq> Inr PyNone"
proof -
  have 1: "(careful_divide a b = Inl (ValueError ''Invalid inputs'')) = (b = 0)"
    by (simp add: careful_divide_def true_divide_def Let_def)
  have 2: "b \<noteq> 0 \<longrightarrow> careful_divide a b
      = (case true_divide a b of Inl e \<Rightarrow> Inl e | Inr q \<Rightarrow> Inr (PyFloating q))"
    by (simp add: careful_divide_cases)
  have 3: "b \<noteq> 0 \<longrightarrow> (\<exists>q. careful_divide a b = Inr (PyFloating q))
      = (round_quotient (nat \<bar>a\<bar>) (nat \<bar>b\<bar>) < 2 ^ 1024)"
    by (auto simp: careful_divide_def true_divide_def Let_def)
  have 4: "b \<noteq> 0 \<longrightarrow> (careful_divide a b
      = Inl (OverflowError ''integer division result too large for a float''))
      = (2 ^ 1024 \<le> round_quotient (nat \<bar>a\<bar>) (nat \<bar>b\<bar>))"
    by (auto simp: careful_divide_def true_divide_def Let_def)
  have 5: "b \<noteq> 0 \<and> 2 ^ 1024 * \<bar>b\<bar> \<le> \<bar>a\<bar> \<longrightarrow> careful_divide a b
      = Inl (OverflowError ''integer division result too large for a float'')"
    using true_divide_overflow [of b a] by (auto simp: careful_divide_def)
  have 6: "careful_divide a b \<noteq> Inr PyNone"
    by (simp add: careful_divide_def split: sum.splits exn.splits)
  from 1 2 3 4 5 6 show ?thesis by blast
qed

theorem careful_divide_raises_witness:
  "(2::int) \<noteq> 0
   \<and> careful_divide 5 2 = Inr (PyFloating (Finite False (5 / 2)))
   \<and> careful_divide 1 0 = Inl (ValueError ''Invalid inputs'')
   \<and> (2::int) ^ 1024 * \<bar>1\<bar> \<le> \<bar>2 ^ 1024\<bar>
   \<and> careful_divide (2 ^ 1024) 1
       = Inl (OverflowError ''integer division result too large for a float'')"
proof -
  have nz: "(2::int) \<noteq> 0" and nz1: "(1::int) \<noteq> 0" by simp_all
  have big: "(2::int) ^ 1024 * \<bar>1\<bar> \<le> \<bar>2 ^ 1024\<bar>" by simp
  have t: "true_divide 5 2 = Inr (Finite False (5 / 2))" by code_simp
  note h = careful_divide_raises [of 5 2]
  note z = careful_divide_raises [of 1 0]
  note o = careful_divide_raises [of "2 ^ 1024" 1]
  from h nz have "careful_divide 5 2
      = (case true_divide 5 2 of Inl e \<Rightarrow> Inl e | Inr q \<Rightarrow> Inr (PyFloating q))" by blast
  then have a: "careful_divide 5 2 = Inr (PyFloating (Finite False (5 / 2)))" by (simp add: t)
  from z have b: "careful_divide 1 0 = Inl (ValueError ''Invalid inputs'')" by blast
  from o nz1 big have c: "careful_divide (2 ^ 1024) 1
      = Inl (OverflowError ''integer division result too large for a float'')" by blast
  from nz a b big c show ?thesis by blast
qed

section \<open>Properties of the countdown timers\<close>

lemma timer_next_raises: "timer_next g = (Inl e, g') \<Longrightarrow> e = StopIteration \<and> g' = Finished"
  by (cases g) (auto simp: timer_loop_def split: if_splits)

lemma timer_step_ok:
  assumes "0 \<le> p" and "timer_gen_ok p g"
  shows "timer_gen_ok p (snd (timer_step op g))"
  using assms
  by (cases op; cases g) (auto simp: timer_gen_ok_def timer_loop_def)

lemma timer_exec_ok:
  assumes "0 \<le> p"
  shows "timer_gen_ok p g \<Longrightarrow> timer_gen_ok p (timer_exec ops g)"
proof (induction ops arbitrary: g)
  case Nil
  then show ?case by simp
next
  case (Cons op ops)
  from timer_step_ok [OF assms Cons.prems] have "timer_gen_ok p (snd (timer_step op g))" .
  from Cons.IH [OF this] show ?case by simp
qed

lemma timer_reachable:
  assumes "0 \<le> p" and "timer_exec ops (timer p) = Suspended q c"
  shows "q = p \<and> 0 \<le> c \<and> c < p"
proof -
  have "timer_gen_ok p (timer p)" by (simp add: timer_gen_ok_def timer_def)
  from timer_exec_ok [OF assms(1) this, of ops] assms(2) show ?thesis
    by (simp add: timer_gen_ok_def)
qed

lemma countdown_list: "rev [0..int (Suc n) - 1] = int n # rev [0..int n - 1]"
proof -
  have "[0..int n] = [0..int n - 1] @ [int n]" by (rule upto_rec2) simp
  then show ?thesis by simp
qed

lemma timer_values_suspended:
  "timer_values (Suc n + k) (Suspended p (int n)) = Some (rev [0..int n - 1])"
proof (induction n)
  case 0
  show ?case by (simp add: timer_loop_def)
next
  case (Suc n)
  have "timer_next (Suspended p (int (Suc n))) = (Inr (int n), Suspended p (int n))"
    by (simp add: timer_loop_def)
  then have "timer_values (Suc (Suc n) + k) (Suspended p (int (Suc n)))
      = map_option (Cons (int n)) (timer_values (Suc n + k) (Suspended p (int n)))"
    by simp
  with Suc.IH countdown_list [of n] show ?case by simp
qed

lemma timer_values_created:
  "timer_values (Suc n + k) (timer (int n)) = Some (rev [0..int n - 1])"
proof (cases n)
  case 0
  then show ?thesis by (simp add: timer_def timer_loop_def)
next
  case (Suc m)
  have "timer_next (timer (int (Suc m))) = (Inr (int m), Suspended (int (Suc m)) (int m))"
    by (simp add: timer_def timer_loop_def)
  then have "timer_values (Suc (Suc m) + k) (timer (int (Suc m)))
      = map_option (Cons (int m)) (timer_values (Suc m + k) (Suspended (int (Suc m)) (int m)))"
    by simp
  with timer_values_suspended [of m k "int (Suc m)"] countdown_list [of m] Suc
  show ?thesis by simp
qed

lemma Timer_step_ok:
  assumes "0 \<le> p" and "Timer_ok p s"
  shows "Timer_ok p (Timer_step op s)"
proof (cases s)
  case (Pair self pc)
  with assms show ?thesis
    by (cases op; cases pc) (auto simp: Timer_ok_def reset_def)
qed

lemma Timer_exec_ok:
  assumes "0 \<le> p"
  shows "Timer_ok p s \<Longrightarrow> Timer_ok p (Timer_exec ops s)"
proof (induction ops arbitrary: s)
  case Nil
  then show ?case by simp
next
  case (Cons op ops)
  from Timer_step_ok [OF assms Cons.prems] have "Timer_ok p (Timer_step op s)" .
  from Cons.IH [OF this] show ?case by simp
qed

lemma Timer_reachable:
  assumes "0 \<le> p"
  shows "Timer_ok p (Timer_exec ops (Timer_iter (Timer_init p)))"
proof -
  have "Timer_ok p (Timer_iter (Timer_init p))"
    using assms by (simp add: Timer_ok_def Timer_iter_def Timer_init_def)
  from Timer_exec_ok [OF assms this] show ?thesis .
qed

lemma Timer_values_running:
  assumes "pc \<noteq> Exhausted"
  shows "Timer_values (Suc n + k) (\<lparr>current = int n, period = p\<rparr>, pc) = Some (rev [0..int n - 1])"
  using assms
proof (induction n arbitrary: pc)
  case 0
  then show ?case by (cases pc) simp_all
next
  case (Suc n)
  have "iter_next (\<lparr>current = int (Suc n), period = p\<rparr>, pc)
      = (Inr (int n), (\<lparr>current = int n, period = p\<rparr>, At_yield))"
    using Suc.prems by (cases pc) simp_all
  then have "Timer_values (Suc (Suc n) + k) (\<lparr>current = int (Suc n), period = p\<rparr>, pc)
      = map_option (Cons (int n)) (Timer_values (Suc n + k) (\<lparr>current = int n, period = p\<rparr>, At_yield))"
    by simp
  with Suc.IH [of At_yield] countdown_list [of n] show ?case by simp
qed

lemma Timer_reset_then_next:
  assumes "Timer_ok p (self, At_yield)"
  shows "current (reset self) = p
    \<and> fst (iter_next (reset self, At_yield)) = Inr (p - 1)"
  using assms by (simp add: Timer_ok_def reset_def)

text \<open>
  Claim C2. For a period \<open>p \<ge> 0\<close>, in the generator \<open>timer(p)\<close> and in the class
  \<open>Timer(p)\<close>, whatever sequence of \<open>next\<close> calls and resets has been made:
  the count stays within \<open>0 \<le> current \<le> p\<close> at every pause; with no reset
  the iteration yields \<open>p - 1, p - 2, ..., 0\<close> and then stops (with enough
  fuel, \<open>p + 1\<close> calls of \<open>next\<close>, the loop returns); and a reset at a pause
  (a \<open>Reset\<close> thrown into the paused generator, a call of \<open>reset()\<close> on the
  object) sets \<open>current\<close> back to \<open>p\<close>, so that the next value yielded is
  \<open>p - 1\<close>. A pause is reached only after a value was yielded, hence only when
  \<open>p \<ge> 1\<close>.
\<close>

theorem countdown_timer_invariant:
  assumes "0 \<le> p"
  shows
    "(\<forall>ops q c. timer_exec ops (timer p) = Suspended q c \<longrightarrow>
        q = p \<and> 0 \<le> c \<and> c \<le> p
        \<and> timer_throw (Suspended q c) = (Inr (p - 1), Suspended p (p - 1)))
     \<and> (\<forall>k. timer_values (Suc (nat p) + k) (timer p) = Some (rev [0..p - 1]))
     \<and> (\<forall>ops self pc. Timer_exec ops (Timer_iter (Timer_init p)) = (self, pc) \<longrightarrow>
        period self = p \<and> 0 \<le> current self \<and> current self \<le> p
        \<and> current (reset self) = p
        \<and> (pc = At_yield \<longrightarrow> fst (iter_next (reset self, pc)) = Inr (p - 1)))
     \<and> (\<forall>k. Timer_values (Suc (nat p) + k) (Timer_iter (Timer_init p))
            = Some (rev [0..p - 1]))"
proof (intro conjI allI impI)
  fix ops q c
  assume run: "timer_exec ops (timer p) = Suspended q c"
  from timer_reachable [OF assms run] have r: "q = p \<and> 0 \<le> c \<and> c < p" .
  then show "q = p" and "0 \<le> c" and "c \<le> p" by simp_all
  from r show "timer_throw (Suspended q c) = (Inr (p - 1), Suspended p (p - 1))"
    by (simp add: timer_loop_def)
next
  fix k
  from assms have "int (nat p) = p" by simp
  with timer_values_created [of "nat p" k]
  show "timer_values (Suc (nat p) + k) (timer p) = Some (rev [0..p - 1])" by simp
next
  fix ops self pc
  assume run: "Timer_exec ops (Timer_iter (Timer_init p)) = (self, pc)"
  from Timer_reachable [OF assms, of ops] run have ok: "Timer_ok p (self, pc)" by simp
  then show "period self = p" and "0 \<le> current self" and "current self \<le> p"
    by (simp_all add: Timer_ok_def)
  from ok show "current (reset self) = p" by (simp add: Timer_ok_def reset_def)
  assume at: "pc = At_yield"
  with ok have "Timer_ok p (self, At_yield)" by simp
  from conjunct2 [OF Timer_reset_then_next [OF this]]
  show "fst (iter_next (reset self, pc)) = Inr (p - 1)" unfolding at .
next
  fix k
  from assms have p: "int (nat p) = p" by simp
  have "Timer_iter (Timer_init p) = (\<lparr>current = int (nat p), period = p\<rparr>, Not_started)"
    using assms by (simp add: Timer_iter_def Timer_init_def)
  with Timer_values_running [of Not_started "nat p" k p] p
  show "Timer_values (Suc (nat p) + k) (Timer_iter (Timer_init p)) = Some (rev [0..p - 1])"
    by simp
qed

theorem countdown_timer_invariant_witness:
  "(0::int) \<le> 4
   \<and> timer_exec [Next, Next] (timer 4) = Suspended 4 2
   \<and> timer_throw (Suspended 4 2) = (Inr 3, Suspended 4 3)
   \<and> timer_values 5 (timer 4) = Some [3, 2, 1, 0]
   \<and> Timer_exec [Next_value, Next_value] (Timer_iter (Timer_init 4))
        = (\<lparr>current = 2, period = 4\<rparr>, At_yield)
   \<and> fst (iter_next (reset \<lparr>current = 2, period = 4\<rparr>, At_yield)) = Inr 3
   \<and> Timer_values 5 (Timer_iter (Timer_init 4)) = Some [3, 2, 1, 0]"
proof -
  have p: "(0::int) \<le> 4" by simp
  note h = countdown_timer_invariant [OF p]
  have g: "timer_exec [Next, Next] (timer 4) = Suspended 4 2"
    by (simp add: timer_def timer_loop_def)
  have o: "Timer_exec [Next_value, Next_value] (Timer_iter (Timer_init 4))
      = (\<lparr>current = 2, period = 4\<rparr>, At_yield)"
    by (simp add: Timer_iter_def Timer_init_def)
  have l: "rev [0..(4::int) - 1] = [3, 2, 1, 0]" by (simp add: upto_rec1)
  from h g have t: "timer_throw (Suspended 4 2) = (Inr (4 - 1), Suspended 4 (4 - 1))"
    by blast
  from h have v: "timer_values (Suc (nat 4) + 0) (timer 4) = Some (rev [0..4 - 1])"
    by blast
  from h o have r: "fst (iter_next (reset \<lparr>current = 2, period = 4\<rparr>, At_yield)) = Inr (4 - 1)"
    by blast
  from h have w: "Timer_values (Suc (nat 4) + 0) (Timer_iter (Timer_init 4))
      = Some (rev [0..4 - 1])"
    by blast
  have n: "Suc (nat 4) + 0 = 5" by simp
  from p g o t v r w show ?thesis unfolding n l by simp
qed


section \<open>Properties of the normalising functions\<close>

lemma percent_loop_raises:
  "percent_loop tot result xs = Inl e \<Longrightarrow>
     e = ZeroDivisionError \<or> e = OverflowError ''integer division result too large for a float''"
proof (induction xs arbitrary: result)
  case Nil
  then show ?case by simp
next
  case (Cons v rest)
  show ?case
  proof (cases "true_divide (100 * v) tot")
    case (Inl e')
    with Cons.prems have "e = e'" by simp
    with Inl show ?thesis by (auto simp: true_divide_def Let_def split: if_splits)
  next
    case (Inr percent)
    with Cons.prems have "percent_loop tot (result @ [percent]) rest = Inl e" by simp
    from Cons.IH [OF this] show ?thesis .
  qed
qed

lemma normalize_raises:
  "normalize numbers = Inl e \<Longrightarrow>
     e = ZeroDivisionError \<or> e = OverflowError ''integer division result too large for a float''"
  by (auto simp: normalize_def Let_def split: prod.splits dest: percent_loop_raises)

lemma normalize_iterator: "normalize (Iterator xs) = Inr []"
  by (simp add: normalize_def)

lemma only_normalize_defensive_raises:
  "filter raises_own generator_material
     = [(335, ''normalize_defensive'', [''TypeError'']),
        (351, ''normalize_defensive'', [''TypeError''])]"
  by (simp add: generator_material_def raises_own_def)

text \<open>
  Claim C5 as stated: no function of Items 30 to 36 validates its input or
  raises an exception of its own to reject an argument. It fails at the
  call the source itself makes, \<open>normalize_defensive(iter([15, 35, 80]))\<close>.
\<close>

theorem normalize_defensive_rejects_iterator:
  "normalize_defensive (Iterator [15, 35, 80]) = Inl (TypeError ''Must supply a container'')
   \<and> normalize_defensive_iter (Iterator [15, 35, 80])
        = Inl (TypeError ''Must supply a container'')"
  by (simp add: normalize_defensive_def normalize_defensive_iter_def)

text \<open>
  Claim C5, amended. Of the \<open>def\<close> and \<open>class\<close> statements of Items 30 to 36,
  the two definitions of \<open>normalize_defensive\<close> (Item 31) are the only ones
  with a \<open>raise\<close> statement: no other function of that material raises an
  exception of its own to reject an argument. \<open>normalize_defensive\<close> does
  validate its argument: its first definition raises
  \<open>TypeError('Must supply a container')\<close> exactly when \<open>iter(numbers) is numbers\<close>,
  its second exactly when \<open>isinstance(numbers, Iterator)\<close>, and on any other
  argument each does what \<open>normalize\<close> does. The unguarded \<open>normalize\<close> rejects
  nothing: given an iterator it returns the empty list, and the only
  exceptions it raises are those of the division.
\<close>

theorem normalize_defensive_validates:
  "filter raises_own generator_material
      = [(335, ''normalize_defensive'', [''TypeError'']),
         (351, ''normalize_defensive'', [''TypeError''])]
   \<and> (normalize_defensive_iter numbers = Inl (TypeError ''Must supply a container''))
      = iter_is_self numbers
   \<and> (normalize_defensive numbers = Inl (TypeError ''Must supply a container''))
      = isinstance_Iterator numbers
   \<and> (\<not> iter_is_self numbers \<longrightarrow> normalize_defensive_iter numbers = normalize numbers)
   \<and> (\<not> isinstance_Iterator numbers \<longrightarrow> normalize_defensive numbers = normalize numbers)
   \<and> (\<forall>xs. normalize (Iterator xs) = Inr [])
   \<and> (\<forall>e. normalize numbers = Inl e \<longrightarrow>
         e = ZeroDivisionError
         \<or> e = OverflowError ''integer division result too large for a float'')"
proof -
  have c: "\<not> iter_is_self numbers \<longrightarrow> normalize_defensive_iter numbers = normalize numbers"
    by (simp add: normalize_defensive_iter_def normalize_def)
  have d: "\<not> isinstance_Iterator numbers \<longrightarrow> normalize_defensive numbers = normalize numbers"
    by (simp add: normalize_defensive_def normalize_def)
  have n: "normalize numbers \<noteq> Inl (TypeError ''Must supply a container'')"
    using normalize_raises [of numbers "TypeError ''Must supply a container''"] by auto
  have a: "(normalize_defensive_iter numbers = Inl (TypeError ''Must supply a container''))
      = iter_is_self numbers"
  proof (cases "iter_is_self numbers")
    case True
    then show ?thesis by (simp add: normalize_defensive_iter_def)
  next
    case False
    with c n show ?thesis by simp
  qed
  have b: "(normalize_defensive numbers = Inl (TypeError ''Must supply a container''))
      = isinstance_Iterator numbers"
  proof (cases "isinstance_Iterator numbers")
    case True
    then show ?thesis by (simp add: normalize_defensive_def)
  next
    case False
    with d n show ?thesis by simp
  qed
  have e: "\<forall>e. normalize numbers = Inl e \<longrightarrow>
      e = ZeroDivisionError \<or> e = OverflowError ''integer division result too large for a float''"
    using normalize_raises by blast
  from only_normalize_defensive_raises a b c d e normalize_iterator show ?thesis by blast
qed

theorem normalize_defensive_validates_witness:
  "\<not> iter_is_self (Container_with_next [15, 35, 80 :: int])
   \<and> normalize_defensive_iter (Container_with_next [15, 35, 80])
        = normalize (Container_with_next [15, 35, 80])
   \<and> normalize_defensive (Container_with_next [15, 35, 80])
        = Inl (TypeError ''Must supply a container'')
   \<and> \<not> isinstance_Iterator (Container [15, 35, 80 :: int])
   \<and> normalize_defensive (Container [15, 35, 80]) = normalize (Container [15, 35, 80])
   \<and> normalize (Container [1, - 1]) = Inl ZeroDivisionError"
proof -
  note h = normalize_defensive_validates [of "Container_with_next [15, 35, 80]"]
  note k = normalize_defensive_validates [of "Container [15, 35, 80]"]
  note z = normalize_defensive_validates [of "Container [1, - 1]"]
  have n1: "\<not> iter_is_self (Container_with_next [15, 35, 80 :: int])" by simp
  have i1: "isinstance_Iterator (Container_with_next [15, 35, 80 :: int])" by simp
  have n2: "\<not> isinstance_Iterator (Container [15, 35, 80 :: int])" by simp
  from h n1 have e1: "normalize_defensive_iter (Container_with_next [15, 35, 80])
      = normalize (Container_with_next [15, 35, 80])" by blast
  from h i1 have e2: "normalize_defensive (Container_with_next [15, 35, 80])
      = Inl (TypeError ''Must supply a container'')" by blast
  from k n2 have e3: "normalize_defensive (Container [15, 35, 80])
      = normalize (Container [15, 35, 80])" by blast
  have r: "normalize (Container [1, - 1]) = Inl ZeroDivisionError"
    by (simp add: normalize_def true_divide_def)
  from n1 e1 e2 n2 e3 r show ?thesis by blast
qed


section \<open>Properties of the UTF-8 codec and of the two helpers\<close>

lemma shift64: "(x::nat) div 64 * (64 * k) + x mod 64 * k = x * k"
proof -
  have "(x div 64 * 64 + x mod 64) * k = x * k" by (simp only: div_mult_mod_eq)
  then show ?thesis by (simp only: add_mult_distrib mult.assoc)
qed

lemma split3: "(c::nat) div 4096 * 4096 + c div 64 mod 64 * 64 + c mod 64 = c"
proof -
  have "c div 4096 = c div 64 div 64" by (simp add: div_mult2_eq)
  with shift64 [of "c div 64" 64]
  have "c div 4096 * 4096 + c div 64 mod 64 * 64 = c div 64 * 64" by simp
  then show ?thesis by simp
qed

lemma split4:
  "(c::nat) div 262144 * 262144 + c div 4096 mod 64 * 4096 + c div 64 mod 64 * 64 + c mod 64 = c"
proof -
  have "c div 262144 = c div 4096 div 64" by (simp add: div_mult2_eq)
  with shift64 [of "c div 4096" 4096]
  have "c div 262144 * 262144 + c div 4096 mod 64 * 4096 = c div 4096 * 4096" by simp
  with split3 [of c] show ?thesis by simp
qed

lemma byte_of_nat: "n < 256 \<Longrightarrow> unat (of_nat n :: byte) = n"
  by (simp add: unat_of_nat)

lemma decode_1:
  assumes "unat b0 < 0x80"
  shows "utf8_decode (b0 # rest) = map_option (Cons (unat b0)) (utf8_decode rest)"
  using assms by simp

lemma decode_2:
  assumes "0xC0 \<le> unat b0" "unat b0 < 0xE0" "is_continuation b1"
    and "0x80 \<le> (unat b0 - 0xC0) * 64 + payload b1"
  shows "utf8_decode (b0 # b1 # rest)
    = map_option (Cons ((unat b0 - 0xC0) * 64 + payload b1)) (utf8_decode rest)"
  using assms by simp

lemma decode_3:
  assumes "0xE0 \<le> unat b0" "unat b0 < 0xF0" "is_continuation b1" "is_continuation b2"
    and "0x800 \<le> (unat b0 - 0xE0) * 4096 + payload b1 * 64 + payload b2"
    and "\<not> is_surrogate ((unat b0 - 0xE0) * 4096 + payload b1 * 64 + payload b2)"
  shows "utf8_decode (b0 # b1 # b2 # rest)
    = map_option (Cons ((unat b0 - 0xE0) * 4096 + payload b1 * 64 + payload b2))
        (utf8_decode rest)"
  using assms by simp

lemma decode_4:
  assumes "0xF0 \<le> unat b0" "unat b0 < 0xF8"
    and "is_continuation b1" "is_continuation b2" "is_continuation b3"
    and "0x10000 \<le> (unat b0 - 0xF0) * 262144 + payload b1 * 4096 + payload b2 * 64 + payload b3"
    and "(unat b0 - 0xF0) * 262144 + payload b1 * 4096 + payload b2 * 64 + payload b3 < 0x110000"
  shows "utf8_decode (b0 # b1 # b2 # b3 # rest)
    = map_option (Cons ((unat b0 - 0xF0) * 262144 + payload b1 * 4096 + payload b2 * 64
        + payload b3)) (utf8_decode rest)"
  using assms by simp

lemma continuation_byte:
  assumes "n < 64"
  shows "is_continuation (of_nat (0x80 + n)) \<and> payload (of_nat (0x80 + n)) = n"
proof -
  from assms have "0x80 + n < 256" by simp
  from byte_of_nat [OF this] assms show ?thesis
    by (simp add: is_continuation_def payload_def)
qed

lemma lead_byte:
  assumes "n < k" "l + k \<le> 256"
  shows "unat (of_nat (l + n) :: byte) = l + n"
  using assms by (intro byte_of_nat) simp

lemma encode_cp_decode:
  assumes "utf8_encode_cp c = Some bs"
  shows "utf8_decode (bs @ rest) = map_option (Cons c) (utf8_decode rest)"
proof -
  consider (a) "c < 0x80" | (b) "0x80 \<le> c" "c < 0x800"
    | (c) "0x800 \<le> c" "c < 0x10000" "\<not> is_surrogate c"
    | (d) "0x10000 \<le> c" "c < 0x110000"
    using assms by (auto simp: utf8_encode_cp_def is_surrogate_def split: if_splits)
  then show ?thesis
  proof cases
    case a
    then have bs: "bs = [of_nat c]" using assms by (simp add: utf8_encode_cp_def)
    from a have u: "unat (of_nat c :: byte) = c" by (intro byte_of_nat) simp
    from decode_1 [of "of_nat c" rest] a u show ?thesis unfolding bs by simp
  next
    case b
    define b0 :: byte where "b0 = of_nat (0xC0 + c div 64)"
    define b1 :: byte where "b1 = of_nat (0x80 + c mod 64)"
    from b have bs: "bs = [b0, b1]"
      using assms by (simp add: utf8_encode_cp_def b0_def b1_def)
    have u0: "unat b0 = 0xC0 + c div 64"
      unfolding b0_def using b by (intro lead_byte [where k = 32]) simp_all
    have c1: "is_continuation b1 \<and> payload b1 = c mod 64"
      unfolding b1_def by (intro continuation_byte) simp
    have v: "(unat b0 - 0xC0) * 64 + payload b1 = c" using u0 c1 by simp
    have "utf8_decode (b0 # b1 # rest)
        = map_option (Cons ((unat b0 - 0xC0) * 64 + payload b1)) (utf8_decode rest)"
      using u0 c1 b v by (intro decode_2) simp_all
    with v show ?thesis unfolding bs by simp
  next
    case c
    define b0 :: byte where "b0 = of_nat (0xE0 + c div 4096)"
    define b1 :: byte where "b1 = of_nat (0x80 + c div 64 mod 64)"
    define b2 :: byte where "b2 = of_nat (0x80 + c mod 64)"
    from c have bs: "bs = [b0, b1, b2]"
      using assms by (simp add: utf8_encode_cp_def b0_def b1_def b2_def)
    have u0: "unat b0 = 0xE0 + c div 4096"
      unfolding b0_def using c by (intro lead_byte [where k = 16]) simp_all
    have c1: "is_continuation b1 \<and> payload b1 = c div 64 mod 64"
      unfolding b1_def by (intro continuation_byte) simp
    have c2: "is_continuation b2 \<and> payload b2 = c mod 64"
      unfolding b2_def by (intro continuation_byte) simp
    have v: "(unat b0 - 0xE0) * 4096 + payload b1 * 64 + payload b2 = c"
      using u0 c1 c2 split3 [of c] by simp
    have "utf8_decode (b0 # b1 # b2 # rest)
        = map_option (Cons ((unat b0 - 0xE0) * 4096 + payload b1 * 64 + payload b2))
            (utf8_decode rest)"
      using u0 c1 c2 c by (intro decode_3) (simp_all add: split3)
    with v show ?thesis unfolding bs by simp
  next
    case d
    define b0 :: byte where "b0 = of_nat (0xF0 + c div 262144)"
    define b1 :: byte where "b1 = of_nat (0x80 + c div 4096 mod 64)"
    define b2 :: byte where "b2 = of_nat (0x80 + c div 64 mod 64)"
    define b3 :: byte where "b3 = of_nat (0x80 + c mod 64)"
    from d have bs: "bs = [b0, b1, b2, b3]"
      using assms by (simp add: utf8_encode_cp_def b0_def b1_def b2_def b3_def is_surrogate_def)
    have u0: "unat b0 = 0xF0 + c div 262144"
      unfolding b0_def using d by (intro lead_byte [where k = 8]) simp_all
    have c1: "is_continuation b1 \<and> payload b1 = c div 4096 mod 64"
      unfolding b1_def by (intro continuation_byte) simp
    have c2: "is_continuation b2 \<and> payload b2 = c div 64 mod 64"
      unfolding b2_def by (intro continuation_byte) simp
    have c3: "is_continuation b3 \<and> payload b3 = c mod 64"
      unfolding b3_def by (intro continuation_byte) simp
    have v: "(unat b0 - 0xF0) * 262144 + payload b1 * 4096 + payload b2 * 64 + payload b3 = c"
      using u0 c1 c2 c3 split4 [of c] by simp
    have "utf8_decode (b0 # b1 # b2 # b3 # rest)
        = map_option (Cons ((unat b0 - 0xF0) * 262144 + payload b1 * 4096 + payload b2 * 64
            + payload b3)) (utf8_decode rest)"
      using u0 c1 c2 c3 d by (intro decode_4) (simp_all add: split4)
    with v show ?thesis unfolding bs by simp
  qed
qed


lemma utf8_encode_append:
  "utf8_encode_cp c = Some bs \<Longrightarrow> utf8_encode cs = Some bs' \<Longrightarrow> utf8_encode (c # cs) = Some (bs @ bs')"
  by simp

lemma encode_decode: "utf8_encode cs = Some bs \<Longrightarrow> utf8_decode bs = Some cs"
proof (induction cs arbitrary: bs)
  case Nil
  then show ?case by simp
next
  case (Cons c cs)
  from Cons.prems obtain b1 b2 where e: "utf8_encode_cp c = Some b1"
    and r: "utf8_encode cs = Some b2" and bs: "bs = b1 @ b2"
    by (auto split: option.splits)
  from encode_cp_decode [OF e, of b2] Cons.IH [OF r] show ?case unfolding bs by simp
qed

lemma continuation_payload:
  assumes "is_continuation b"
  shows "payload b < 64" and "(of_nat (0x80 + payload b) :: byte) = b"
proof -
  from assms show "payload b < 64"
    unfolding is_continuation_def payload_def by linarith
  from assms have "0x80 + payload b = unat b"
    unfolding is_continuation_def payload_def by linarith
  then show "(of_nat (0x80 + payload b) :: byte) = b" by (simp only: of_nat_unat ucast_id)
qed

lemma lead_restore:
  assumes "l \<le> unat (b :: byte)"
  shows "(of_nat (l + (unat b - l)) :: byte) = b"
proof -
  from assms have "l + (unat b - l) = unat b" by linarith
  then show ?thesis by (simp only: of_nat_unat ucast_id)
qed

lemma join2:
  assumes "p < 64"
  shows "((x::nat) * 64 + p) div 64 = x" and "(x * 64 + p) mod 64 = p"
  using assms by simp_all

lemma join3:
  assumes "p1 < 64" "p2 < 64"
  shows "((a::nat) * 4096 + p1 * 64 + p2) div 4096 = a"
    and "(a * 4096 + p1 * 64 + p2) div 64 mod 64 = p1"
    and "(a * 4096 + p1 * 64 + p2) mod 64 = p2"
proof -
  let ?c = "a * 4096 + p1 * 64 + p2"
  have e: "?c = (a * 64 + p1) * 64 + p2" by simp
  have d: "?c div 64 = a * 64 + p1" by (subst e) (rule join2(1) [OF assms(2)])
  show "?c mod 64 = p2" by (subst e) (rule join2(2) [OF assms(2)])
  show "?c div 64 mod 64 = p1" unfolding d by (rule join2(2) [OF assms(1)])
  have "?c div 4096 = ?c div 64 div 64" by (simp add: div_mult2_eq)
  also have "\<dots> = a" unfolding d by (rule join2(1) [OF assms(1)])
  finally show "?c div 4096 = a" .
qed

lemma join4:
  assumes "p1 < 64" "p2 < 64" "p3 < 64"
  shows "((a::nat) * 262144 + p1 * 4096 + p2 * 64 + p3) div 262144 = a"
    and "(a * 262144 + p1 * 4096 + p2 * 64 + p3) div 4096 mod 64 = p1"
    and "(a * 262144 + p1 * 4096 + p2 * 64 + p3) div 64 mod 64 = p2"
    and "(a * 262144 + p1 * 4096 + p2 * 64 + p3) mod 64 = p3"
proof -
  let ?c = "a * 262144 + p1 * 4096 + p2 * 64 + p3"
  have e: "?c = (a * 64 + p1) * 4096 + p2 * 64 + p3" by simp
  have d: "?c div 4096 = a * 64 + p1" by (subst e) (rule join3(1) [OF assms(2,3)])
  show "?c div 64 mod 64 = p2" by (subst e) (rule join3(2) [OF assms(2,3)])
  show "?c mod 64 = p3" by (subst e) (rule join3(3) [OF assms(2,3)])
  show "?c div 4096 mod 64 = p1" unfolding d by (rule join2(2) [OF assms(1)])
  have "?c div 262144 = ?c div 4096 div 64" by (simp add: div_mult2_eq)
  also have "\<dots> = a" unfolding d by (rule join2(1) [OF assms(1)])
  finally show "?c div 262144 = a" .
qed


lemma encode_1:
  assumes "unat (b0 :: byte) < 0x80"
  shows "utf8_encode_cp (unat b0) = Some [b0]"
  using assms by (simp add: utf8_encode_cp_def)

lemma encode_2:
  assumes "0xC0 \<le> unat b0" "unat b0 < 0xE0" "is_continuation b1"
    and "0x80 \<le> (unat b0 - 0xC0) * 64 + payload b1"
  shows "utf8_encode_cp ((unat b0 - 0xC0) * 64 + payload b1) = Some [b0, b1]"
proof -
  let ?c = "(unat b0 - 0xC0) * 64 + payload b1"
  note p = continuation_payload [OF assms(3)]
  have hi: "?c < 0x800" using assms(2) p(1) by linarith
  have lo: "\<not> ?c < 0x80" using assms(4) by linarith
  have "utf8_encode_cp ?c = Some [of_nat (0xC0 + ?c div 64), of_nat (0x80 + ?c mod 64)]"
    using hi lo by (simp only: utf8_encode_cp_def if_True if_False)
  also have "?c div 64 = unat b0 - 0xC0" by (rule join2(1) [OF p(1)])
  also have "?c mod 64 = payload b1" by (rule join2(2) [OF p(1)])
  also have "(of_nat (0xC0 + (unat b0 - 0xC0)) :: byte) = b0" by (rule lead_restore [OF assms(1)])
  also have "(of_nat (0x80 + payload b1) :: byte) = b1" by (rule p(2))
  finally show ?thesis .
qed

lemma encode_3:
  assumes "0xE0 \<le> unat b0" "unat b0 < 0xF0" "is_continuation b1" "is_continuation b2"
    and "0x800 \<le> (unat b0 - 0xE0) * 4096 + payload b1 * 64 + payload b2"
    and "\<not> is_surrogate ((unat b0 - 0xE0) * 4096 + payload b1 * 64 + payload b2)"
  shows "utf8_encode_cp ((unat b0 - 0xE0) * 4096 + payload b1 * 64 + payload b2)
    = Some [b0, b1, b2]"
proof -
  let ?c = "(unat b0 - 0xE0) * 4096 + payload b1 * 64 + payload b2"
  note p1 = continuation_payload [OF assms(3)]
  note p2 = continuation_payload [OF assms(4)]
  note j = join3 [OF p1(1) p2(1), of "unat b0 - 0xE0"]
  have hi: "?c < 0x10000" using assms(2) p1(1) p2(1) by linarith
  have lo: "\<not> ?c < 0x80" "\<not> ?c < 0x800" using assms(5) by linarith+
  have "utf8_encode_cp ?c = Some [of_nat (0xE0 + ?c div 4096),
      of_nat (0x80 + ?c div 64 mod 64), of_nat (0x80 + ?c mod 64)]"
    using hi lo assms(6) by (simp only: utf8_encode_cp_def if_True if_False)
  also have "?c div 4096 = unat b0 - 0xE0" by (rule j(1))
  also have "?c div 64 mod 64 = payload b1" by (rule j(2))
  also have "?c mod 64 = payload b2" by (rule j(3))
  also have "(of_nat (0xE0 + (unat b0 - 0xE0)) :: byte) = b0" by (rule lead_restore [OF assms(1)])
  also have "(of_nat (0x80 + payload b1) :: byte) = b1" by (rule p1(2))
  also have "(of_nat (0x80 + payload b2) :: byte) = b2" by (rule p2(2))
  finally show ?thesis .
qed

lemma encode_4:
  assumes "0xF0 \<le> unat b0" "unat b0 < 0xF8"
    and "is_continuation b1" "is_continuation b2" "is_continuation b3"
    and "0x10000 \<le> (unat b0 - 0xF0) * 262144 + payload b1 * 4096 + payload b2 * 64 + payload b3"
    and "(unat b0 - 0xF0) * 262144 + payload b1 * 4096 + payload b2 * 64 + payload b3 < 0x110000"
  shows "utf8_encode_cp ((unat b0 - 0xF0) * 262144 + payload b1 * 4096 + payload b2 * 64
      + payload b3) = Some [b0, b1, b2, b3]"
proof -
  let ?c = "(unat b0 - 0xF0) * 262144 + payload b1 * 4096 + payload b2 * 64 + payload b3"
  note p1 = continuation_payload [OF assms(3)]
  note p2 = continuation_payload [OF assms(4)]
  note p3 = continuation_payload [OF assms(5)]
  note j = join4 [OF p1(1) p2(1) p3(1), of "unat b0 - 0xF0"]
  have lo: "\<not> ?c < 0x80" "\<not> ?c < 0x800" "\<not> ?c < 0x10000" "\<not> is_surrogate ?c"
    using assms(6) unfolding is_surrogate_def by linarith+
  have "utf8_encode_cp ?c = Some [of_nat (0xF0 + ?c div 262144),
      of_nat (0x80 + ?c div 4096 mod 64), of_nat (0x80 + ?c div 64 mod 64),
      of_nat (0x80 + ?c mod 64)]"
    using lo assms(7) by (simp only: utf8_encode_cp_def if_True if_False)
  also have "?c div 262144 = unat b0 - 0xF0" by (rule j(1))
  also have "?c div 4096 mod 64 = payload b1" by (rule j(2))
  also have "?c div 64 mod 64 = payload b2" by (rule j(3))
  also have "?c mod 64 = payload b3" by (rule j(4))
  also have "(of_nat (0xF0 + (unat b0 - 0xF0)) :: byte) = b0" by (rule lead_restore [OF assms(1)])
  also have "(of_nat (0x80 + payload b1) :: byte) = b1" by (rule p1(2))
  also have "(of_nat (0x80 + payload b2) :: byte) = b2" by (rule p2(2))
  also have "(of_nat (0x80 + payload b3) :: byte) = b3" by (rule p3(2))
  finally show ?thesis .
qed


lemma decode_lead:
  assumes "utf8_decode (b0 # rest) = Some cs"
  shows "unat b0 < 0x80 \<or> (0xC0 \<le> unat b0 \<and> unat b0 < 0xE0)
    \<or> (0xE0 \<le> unat b0 \<and> unat b0 < 0xF0) \<or> (0xF0 \<le> unat b0 \<and> unat b0 < 0xF8)"
proof (rule ccontr)
  assume "\<not> ?thesis"
  then have "\<not> unat b0 < 0x80" and "unat b0 < 0xC0 \<or> \<not> unat b0 < 0xF8" by linarith+
  then have "utf8_decode (b0 # rest) = None" by auto
  with assms show False by simp
qed

lemma decode_1_inv:
  assumes "unat b0 < 0x80" and "utf8_decode (b0 # rest) = Some cs"
  obtains cs' where "utf8_decode rest = Some cs'" and "cs = unat b0 # cs'"
  using assms by auto

lemma decode_2_inv:
  assumes "0xC0 \<le> unat b0" "unat b0 < 0xE0" and "utf8_decode (b0 # rest) = Some cs"
  obtains b1 rest1 cs' where "rest = b1 # rest1" and "is_continuation b1"
    and "0x80 \<le> (unat b0 - 0xC0) * 64 + payload b1"
    and "utf8_decode rest1 = Some cs'"
    and "cs = ((unat b0 - 0xC0) * 64 + payload b1) # cs'"
  using assms by (auto simp: Let_def split: list.splits if_splits)

lemma decode_3_inv:
  assumes "0xE0 \<le> unat b0" "unat b0 < 0xF0" and "utf8_decode (b0 # rest) = Some cs"
  obtains b1 b2 rest2 cs' where "rest = b1 # b2 # rest2"
    and "is_continuation b1" and "is_continuation b2"
    and "0x800 \<le> (unat b0 - 0xE0) * 4096 + payload b1 * 64 + payload b2"
    and "\<not> is_surrogate ((unat b0 - 0xE0) * 4096 + payload b1 * 64 + payload b2)"
    and "utf8_decode rest2 = Some cs'"
    and "cs = ((unat b0 - 0xE0) * 4096 + payload b1 * 64 + payload b2) # cs'"
  using assms by (auto simp: Let_def split: list.splits if_splits)

lemma decode_4_inv:
  assumes "0xF0 \<le> unat b0" "unat b0 < 0xF8" and "utf8_decode (b0 # rest) = Some cs"
  obtains b1 b2 b3 rest3 cs' where "rest = b1 # b2 # b3 # rest3"
    and "is_continuation b1" and "is_continuation b2" and "is_continuation b3"
    and "0x10000 \<le> (unat b0 - 0xF0) * 262144 + payload b1 * 4096 + payload b2 * 64 + payload b3"
    and "(unat b0 - 0xF0) * 262144 + payload b1 * 4096 + payload b2 * 64 + payload b3 < 0x110000"
    and "utf8_decode rest3 = Some cs'"
    and "cs = ((unat b0 - 0xF0) * 262144 + payload b1 * 4096 + payload b2 * 64 + payload b3) # cs'"
  using assms by (auto simp: Let_def split: list.splits if_splits)

lemma decode_encode: "utf8_decode bs = Some cs \<Longrightarrow> utf8_encode cs = Some bs"
proof (induction bs arbitrary: cs rule: length_induct)
  case (1 bs)
  note IH = "1.IH" [rule_format]
  show ?case
  proof (cases bs)
    case Nil
    with "1.prems" show ?thesis by simp
  next
    case (Cons b0 rest)
    with "1.prems" have dec: "utf8_decode (b0 # rest) = Some cs" by simp
    from decode_lead [OF dec]
    consider (a) "unat b0 < 0x80" | (b) "0xC0 \<le> unat b0" "unat b0 < 0xE0"
      | (c) "0xE0 \<le> unat b0" "unat b0 < 0xF0" | (d) "0xF0 \<le> unat b0" "unat b0 < 0xF8"
      by blast
    then show ?thesis
    proof cases
      case a
      from decode_1_inv [OF a dec] obtain cs' where
        r: "utf8_decode rest = Some cs'" and cs: "cs = unat b0 # cs'" by blast
      have "length rest < length bs" by (simp add: Cons)
      from IH [OF this r] have "utf8_encode cs' = Some rest" .
      from utf8_encode_append [OF encode_1 [OF a] this] show ?thesis by (simp add: cs Cons)
    next
      case b
      from decode_2_inv [OF b dec] obtain b1 rest1 cs' where
        rest: "rest = b1 # rest1" and c1: "is_continuation b1"
        and lo: "0x80 \<le> (unat b0 - 0xC0) * 64 + payload b1"
        and r: "utf8_decode rest1 = Some cs'"
        and cs: "cs = ((unat b0 - 0xC0) * 64 + payload b1) # cs'" by blast
      have "length rest1 < length bs" by (simp add: Cons rest)
      from IH [OF this r] have "utf8_encode cs' = Some rest1" .
      from utf8_encode_append [OF encode_2 [OF b c1 lo] this] show ?thesis
        by (simp add: cs Cons rest)
    next
      case c
      from decode_3_inv [OF c dec] obtain b1 b2 rest2 cs' where
        rest: "rest = b1 # b2 # rest2" and c1: "is_continuation b1" and c2: "is_continuation b2"
        and lo: "0x800 \<le> (unat b0 - 0xE0) * 4096 + payload b1 * 64 + payload b2"
        and ns: "\<not> is_surrogate ((unat b0 - 0xE0) * 4096 + payload b1 * 64 + payload b2)"
        and r: "utf8_decode rest2 = Some cs'"
        and cs: "cs = ((unat b0 - 0xE0) * 4096 + payload b1 * 64 + payload b2) # cs'" by blast
      have "length rest2 < length bs" by (simp add: Cons rest)
      from IH [OF this r] have "utf8_encode cs' = Some rest2" .
      from utf8_encode_append [OF encode_3 [OF c c1 c2 lo ns] this] show ?thesis
        by (simp add: cs Cons rest)
    next
      case d
      from decode_4_inv [OF d dec] obtain b1 b2 b3 rest3 cs' where
        rest: "rest = b1 # b2 # b3 # rest3"
        and c1: "is_continuation b1" and c2: "is_continuation b2" and c3: "is_continuation b3"
        and lo: "0x10000 \<le> (unat b0 - 0xF0) * 262144 + payload b1 * 4096 + payload b2 * 64
            + payload b3"
        and hi: "(unat b0 - 0xF0) * 262144 + payload b1 * 4096 + payload b2 * 64 + payload b3
            < 0x110000"
        and r: "utf8_decode rest3 = Some cs'"
        and cs: "cs = ((unat b0 - 0xF0) * 262144 + payload b1 * 4096 + payload b2 * 64
            + payload b3) # cs'" by blast
      have "length rest3 < length bs" by (simp add: Cons rest)
      from IH [OF this r] have "utf8_encode cs' = Some rest3" .
      from utf8_encode_append [OF encode_4 [OF d c1 c2 c3 lo hi] this] show ?thesis
        by (simp add: cs Cons rest)
    qed
  qed
qed

lemma utf8_encode_cp_defined:
  "(utf8_encode_cp c \<noteq> None) = (is_codepoint c \<and> \<not> is_surrogate c)"
  by (auto simp: utf8_encode_cp_def is_codepoint_def is_surrogate_def)

lemma utf8_encode_defined:
  "(utf8_encode cs \<noteq> None) = list_all (\<lambda>c. is_codepoint c \<and> \<not> is_surrogate c) cs"
proof (induction cs)
  case Nil
  show ?case by simp
next
  case (Cons c cs)
  with utf8_encode_cp_defined [of c] show ?case by (auto split: option.splits)
qed

lemma round_trip_str:
  assumes "list_all is_codepoint s" and "\<not> list_ex is_surrogate s"
  shows "and_then (to_bytes (Str s)) to_str = Inr (Str s)"
proof -
  from assms have "list_all (\<lambda>c. is_codepoint c \<and> \<not> is_surrogate c) s"
    by (induction s) simp_all
  with utf8_encode_defined [of s] obtain bs where e: "utf8_encode s = Some bs" by auto
  from encode_decode [OF e] e show ?thesis by (simp add: and_then_def)
qed

lemma to_bytes_raises:
  assumes "list_all is_codepoint s"
  shows "(to_bytes (Str s) = Inl UnicodeEncodeError) = list_ex is_surrogate s"
proof -
  from assms have "list_all (\<lambda>c. is_codepoint c \<and> \<not> is_surrogate c) s = (\<not> list_ex is_surrogate s)"
    by (induction s) auto
  with utf8_encode_defined [of s] show ?thesis by (auto split: option.splits)
qed

lemma round_trip_bytes:
  assumes "utf8_decode b \<noteq> None"
  shows "and_then (to_str (Bytes b)) to_bytes = Inr (Bytes b)"
proof -
  from assms obtain s where d: "utf8_decode b = Some s" by auto
  from decode_encode [OF d] d show ?thesis by (simp add: and_then_def)
qed

text \<open>
  Claim C10 as stated: for every \<open>str\<close> value \<open>s\<close>, \<open>to_str(to_bytes(s)) == s\<close>.
  The one-character string \<open>'\ud800'\<close> is a \<open>str\<close>, and \<open>to_bytes\<close> raises
  \<open>UnicodeEncodeError\<close> on it, so that the round trip returns nothing.
\<close>

theorem to_bytes_surrogate_raises:
  "is_codepoint 0xD800
   \<and> to_bytes (Str [0xD800]) = Inl UnicodeEncodeError
   \<and> and_then (to_bytes (Str [0xD800])) to_str \<noteq> Inr (Str [0xD800])"
  by (simp add: is_codepoint_def utf8_encode_cp_def is_surrogate_def and_then_def)

text \<open>
  Claim C10, amended. For every \<open>str\<close> value \<open>s\<close> that holds no surrogate code
  point (\<open>0xD800..0xDFFF\<close>), \<open>to_str(to_bytes(s)) == s\<close>, and \<open>to_bytes\<close> raises
  \<open>UnicodeEncodeError\<close> exactly on the strings that hold one; for every \<open>bytes\<close>
  value \<open>b\<close> that is valid UTF-8 (that \<open>decode\<close> accepts),
  \<open>to_bytes(to_str(b)) == b\<close>; and each helper returns its argument unchanged when
  it already has the target type.
\<close>

theorem to_str_to_bytes_round_trip:
  "(list_all is_codepoint s \<and> \<not> list_ex is_surrogate s \<longrightarrow>
      and_then (to_bytes (Str s)) to_str = Inr (Str s))
   \<and> (list_all is_codepoint s \<longrightarrow>
      (to_bytes (Str s) = Inl UnicodeEncodeError) = list_ex is_surrogate s)
   \<and> (utf8_decode b \<noteq> None \<longrightarrow> and_then (to_str (Bytes b)) to_bytes = Inr (Bytes b))
   \<and> to_str (Str s) = Inr (Str s)
   \<and> to_bytes (Bytes b) = Inr (Bytes b)"
  using round_trip_str [of s] to_bytes_raises [of s] round_trip_bytes [of b] by simp

theorem to_str_to_bytes_round_trip_witness:
  "list_all is_codepoint [0x41, 0xF1, 0x20AC, 0x1F600]
   \<and> \<not> list_ex is_surrogate [0x41, 0xF1, 0x20AC, 0x1F600]
   \<and> and_then (to_bytes (Str [0x41, 0xF1, 0x20AC, 0x1F600])) to_str
        = Inr (Str [0x41, 0xF1, 0x20AC, 0x1F600])
   \<and> utf8_decode [0x66, 0x6F, 0x6F] \<noteq> None
   \<and> and_then (to_str (Bytes [0x66, 0x6F, 0x6F])) to_bytes = Inr (Bytes [0x66, 0x6F, 0x6F])"
proof -
  have v: "list_all is_codepoint [0x41, 0xF1, 0x20AC, 0x1F600]"
    by (simp add: is_codepoint_def)
  have n: "\<not> list_ex is_surrogate [0x41, 0xF1, 0x20AC, 0x1F600]"
    by (simp add: is_surrogate_def)
  have d: "utf8_decode [0x66, 0x6F, 0x6F] \<noteq> None" by simp
  note h = to_str_to_bytes_round_trip [of "[0x41, 0xF1, 0x20AC, 0x1F600]" "[0x66, 0x6F, 0x6F]"]
  from h v n have r1: "and_then (to_bytes (Str [0x41, 0xF1, 0x20AC, 0x1F600])) to_str
      = Inr (Str [0x41, 0xF1, 0x20AC, 0x1F600])" by blast
  from h d have r2: "and_then (to_str (Bytes [0x66, 0x6F, 0x6F])) to_bytes
      = Inr (Bytes [0x66, 0x6F, 0x6F])" by blast
  from v n r1 d r2 show ?thesis by blast
qed

section \<open>Properties of the data.bin round trip\<close>

lemma read_back: "open_rb_read (open_wb_write fs path written) path = Inr written"
  by (simp add: open_rb_read_def open_wb_write_def)

text \<open>
  Claim C7. Whatever the file system held before (also after the failed
  write in text mode), once \<open>b'\xf1\xf2\xf3\xf4\xf5'\<close> has been written to
  \<open>data.bin\<close> in mode \<open>'wb'\<close>, reading it in mode \<open>'rb'\<close> returns these five
  bytes, and reading it in text mode with \<open>encoding='cp1252'\<close> returns the five
  code points \<open>0xF1..0xF5\<close>, the string of the letters n, o, o, o, o with
  tilde, grave, acute, circumflex and tilde. (Read as UTF-8, the same file
  raises \<open>UnicodeDecodeError\<close>.)
\<close>

theorem data_bin_round_trip:
  "open_rb_read (open_wb_write fs ''data.bin'' [0xF1, 0xF2, 0xF3, 0xF4, 0xF5]) ''data.bin''
      = Inr [0xF1, 0xF2, 0xF3, 0xF4, 0xF5]
   \<and> open_r_read (open_wb_write fs ''data.bin'' [0xF1, 0xF2, 0xF3, 0xF4, 0xF5]) ''data.bin'' Cp1252
      = Inr [0xF1, 0xF2, 0xF3, 0xF4, 0xF5]
   \<and> open_r_read (open_wb_write fs ''data.bin'' [0xF1, 0xF2, 0xF3, 0xF4, 0xF5]) ''data.bin'' Utf8
      = Inl UnicodeDecodeError
   \<and> open_rb_read
        (open_wb_write
           (snd (open_w_write fs ''data.bin'' [0xF1, 0xF2, 0xF3, 0xF4, 0xF5]))
           ''data.bin'' [0xF1, 0xF2, 0xF3, 0xF4, 0xF5]) ''data.bin''
      = Inr [0xF1, 0xF2, 0xF3, 0xF4, 0xF5]"
proof -
  have "open_r_read (open_wb_write fs ''data.bin'' [0xF1, 0xF2, 0xF3, 0xF4, 0xF5]) ''data.bin'' Cp1252
      = Inr [0xF1, 0xF2, 0xF3, 0xF4, 0xF5]"
    by (simp add: open_r_read_def open_wb_write_def cp1252_decode_byte_def)
  moreover
  have "open_r_read (open_wb_write fs ''data.bin'' [0xF1, 0xF2, 0xF3, 0xF4, 0xF5]) ''data.bin'' Utf8
      = Inl UnicodeDecodeError"
    by (simp add: open_r_read_def open_wb_write_def is_continuation_def payload_def)
  ultimately show ?thesis by (simp add: read_back)
qed


section \<open>Properties of the random bits\<close>

lemma py_range_32: "py_range 0 32 = map int [0..<32]"
  unfolding py_range_def by (simp add: upto_rec1 upt_rec)

lemma loop_bits:
  "bit (random_bits_loop r k (map int [k..<n]) acc) j
     = (bit acc j \<or> (k \<le> j \<and> j < n \<and> r j \<noteq> 0))"
proof (induction "n - k" arbitrary: k acc)
  case 0
  then show ?case by auto
next
  case (Suc d)
  then have lt: "k < n" and d: "d = n - Suc k" by simp_all
  from lt have l: "[k..<n] = k # [Suc k..<n]" by (simp add: upt_rec)
  let ?acc = "if r k \<noteq> 0 then acc OR push_bit k 1 else acc"
  have b: "bit ?acc j = (bit acc j \<or> (j = k \<and> r k \<noteq> 0))"
    by (auto simp: bit_or_iff bit_exp_iff)
  have s: "random_bits_loop r k (map int [k..<n]) acc
      = random_bits_loop r (Suc k) (map int [Suc k..<n]) ?acc"
    unfolding l by simp
  have c: "(k \<le> j \<and> j < n \<and> r j \<noteq> 0)
      = ((j = k \<and> r k \<noteq> 0) \<or> (Suc k \<le> j \<and> j < n \<and> r j \<noteq> 0))"
    using lt by (cases "j = k") auto
  show ?case
    unfolding s Suc.hyps(1) [OF d, of ?acc] b c by blast
qed

lemma loop_nonneg:
  "0 \<le> acc \<Longrightarrow> 0 \<le> random_bits_loop r k xs acc"
  by (induction xs arbitrary: k acc) simp_all

lemma random_bits_bit: "bit (random_bits r) j = (j < 32 \<and> r j \<noteq> 0)"
  unfolding random_bits_def py_range_32 using loop_bits [of r 0 32 0 j] by simp

lemma random_bits_nonneg: "0 \<le> random_bits r"
  unfolding random_bits_def by (rule loop_nonneg) simp

lemma random_bits_eq:
  "(random_bits r1 = random_bits r2) = (\<forall>k<32. (r1 k \<noteq> 0) = (r2 k \<noteq> 0))"
  unfolding bit_eq_iff random_bits_bit by auto

lemma bin_digits_value:
  "foldl (\<lambda>a c. 2 * a + (if c = CHR ''1'' then 1 else 0)) 0 (bin_digits n) = n"
proof (induction n rule: bin_digits.induct)
  case (1 n)
  show ?case
  proof (cases "n < 2")
    case True
    then show ?thesis by (subst bin_digits.simps) auto
  next
    case False
    have "2 * (n div 2) + (if n mod 2 = 0 then 0 else 1) = n" by presburger
    with False "1.IH" show ?thesis by (subst bin_digits.simps) auto
  qed
qed

lemma bin_digits_inj: "bin_digits a = bin_digits b \<Longrightarrow> a = b"
  by (metis bin_digits_value)

lemma bin_inj:
  assumes "0 \<le> a" "0 \<le> b" "bin a = bin b"
  shows "a = b"
proof -
  from assms have "bin_digits (nat a) = bin_digits (nat b)" by (simp add: bin_def)
  from bin_digits_inj [OF this] assms show ?thesis by simp
qed

lemma print_random_bits_eq:
  "(print_random_bits r1 = print_random_bits r2) = (random_bits r1 = random_bits r2)"
  unfolding print_random_bits_def
  using bin_inj [OF random_bits_nonneg random_bits_nonneg, of r1 r2] by auto

lemma print_all_zero: "print_random_bits (\<lambda>k. 0) = ''0b0''"
  by (simp add: print_random_bits_def random_bits_def py_range_32 upt_rec bin_def
      bin_digits.simps)

lemma random_bits_all_one: "random_bits (\<lambda>k. 1) = 4294967295"
  by (simp add: random_bits_def py_range_32 upt_rec)

lemma print_all_one: "print_random_bits (\<lambda>k. 1) = ''0b11111111111111111111111111111111''"
  unfolding print_random_bits_def random_bits_all_one bin_def
  by (simp add: bin_digits.simps)

text \<open>
  Claim C6 as stated: two runs of the same file print identical output. Two
  runs of the snippet of Item 7 in which \<open>randint\<close> returns 0 throughout and 1
  throughout print \<open>0b0\<close> and \<open>0b11111111111111111111111111111111\<close>.
\<close>

theorem random_bits_runs_differ:
  "print_random_bits (\<lambda>k. 0) = ''0b0''
   \<and> print_random_bits (\<lambda>k. 1) = ''0b11111111111111111111111111111111''
   \<and> print_random_bits (\<lambda>k. 0) \<noteq> print_random_bits (\<lambda>k. 1)"
  by (simp add: print_all_zero print_all_one)

lemma random_bits_eq_bits:
  assumes "\<forall>k<32. r1 k \<in> {0, 1} \<and> r2 k \<in> {0, 1}"
  shows "(random_bits r1 = random_bits r2) = (\<forall>k<32. r1 k = r2 k)"
proof -
  have "((r1 k \<noteq> 0) = (r2 k \<noteq> 0)) = (r1 k = r2 k)" if "k < 32" for k
    using assms that by auto
  then show ?thesis unfolding random_bits_eq by auto
qed

text \<open>
  Claim C6, amended. The random-bits snippet of Item 7 does not reproduce its
  printed output from run to run: the line it prints is decided by the 32
  values its calls of \<open>randint(0, 1)\<close> return (bit \<open>j\<close> of the number printed is
  set exactly when \<open>j < 32\<close> and call \<open>j\<close> returned 1), and two runs print the
  identical line exactly when these 32 values are the same in both runs.
\<close>

theorem random_bits_output_determined:
  "((\<forall>k<32. r1 k \<in> {0, 1} \<and> r2 k \<in> {0, 1}) \<longrightarrow>
      (print_random_bits r1 = print_random_bits r2) = (\<forall>k<32. r1 k = r2 k))
   \<and> ((\<forall>k<32. r1 k \<in> {0, 1}) \<longrightarrow>
      (\<forall>j. bit (random_bits r1) j = (j < 32 \<and> r1 j = 1)))
   \<and> 0 \<le> random_bits r1"
proof -
  have a: "(\<forall>k<32. r1 k \<in> {0, 1} \<and> r2 k \<in> {0, 1}) \<longrightarrow>
      (print_random_bits r1 = print_random_bits r2) = (\<forall>k<32. r1 k = r2 k)"
    using print_random_bits_eq [of r1 r2] random_bits_eq_bits [of r1 r2] by simp
  have b: "(\<forall>k<32. r1 k \<in> {0, 1}) \<longrightarrow>
      (\<forall>j. bit (random_bits r1) j = (j < 32 \<and> r1 j = 1))"
    unfolding random_bits_bit by auto
  from a b random_bits_nonneg [of r1] show ?thesis by blast
qed

theorem random_bits_output_determined_witness:
  "print_random_bits (\<lambda>k. 1) = print_random_bits (\<lambda>k. if k < 32 then 1 else 0)
   \<and> print_random_bits (\<lambda>k. if k < 32 then 1 else 0)
       = ''0b11111111111111111111111111111111''
   \<and> bit (random_bits (\<lambda>k. 1)) 31 \<and> \<not> bit (random_bits (\<lambda>k. 1)) 32"
proof -
  note h = random_bits_output_determined [of "\<lambda>k. 1" "\<lambda>k. if k < 32 then 1 else 0"]
  have v: "\<forall>k<32. ((\<lambda>k. 1) k :: int) \<in> {0, 1}
      \<and> ((\<lambda>k. if k < 32 then 1 else 0) k :: int) \<in> {0, 1}" by simp
  have v1: "\<forall>k<32. ((\<lambda>k. 1) k :: int) \<in> {0, 1}" by simp
  have same: "\<forall>k<32. ((\<lambda>k. 1) k :: int) = (\<lambda>k. if k < 32 then 1 else 0) k" by simp
  from h v same have e: "print_random_bits (\<lambda>k. 1)
      = print_random_bits (\<lambda>k. if k < 32 then 1 else 0)" by blast
  from h v1 have b: "\<forall>j. bit (random_bits (\<lambda>k. 1)) j = (j < 32 \<and> ((\<lambda>k. 1) j :: int) = 1)"
    by blast
  from b have b31: "bit (random_bits (\<lambda>k. 1)) 31" and b32: "\<not> bit (random_bits (\<lambda>k. 1)) 32"
    by simp_all
  from e print_all_one b31 b32 show ?thesis by simp
qed

section \<open>Properties of the formatting expressions\<close>

lemma round_value: "round_half_even (\<bar>694680242521899 / 562949953421312\<bar> * 10 ^ 2) = 123"
proof -
  have f: "\<lfloor>(17367006063047475 / 140737488355328 :: rat)\<rfloor> = 123"
    by (rule floor_unique) simp_all
  have e: "\<bar>694680242521899 / 562949953421312\<bar> * 10 ^ 2 = (17367006063047475 / 140737488355328 :: rat)"
    by simp
  show ?thesis unfolding e round_half_even_def f by (simp add: Let_def)
qed

lemma fixed_value: "fixed_point 2 (694680242521899 / 562949953421312) = ''1.23''"
  unfolding fixed_point_def round_value
  by (simp add: Let_def dec_digits.simps)

lemma spec_left: "parse_format_spec ''<10''
    = Some \<lparr>fill = CHR '' '', align = Some (CHR ''<''), width = 10, precision = None, kind = None\<rparr>"
  by (simp add: parse_format_spec_def take_align_def is_align_def is_digit_def take_precision_def
      number_of_def)

lemma spec_fixed: "parse_format_spec ''.2f''
    = Some \<lparr>fill = CHR '' '', align = None, width = 0, precision = Some 2, kind = Some (CHR ''f'')\<rparr>"
  by (simp add: parse_format_spec_def take_align_def is_align_def is_digit_def take_precision_def
      number_of_def)

lemma tokens_tuple: "percent_tokens ''%-10s = %.2f'' Outside
    = [PSpec ''-10s'', PLit (CHR '' ''), PLit (CHR ''=''), PLit (CHR '' ''), PSpec ''.2f'']"
  by (simp add: is_conversion_type_def)

lemma tokens_dict: "percent_tokens ''%(key)-10s = %(value).2f'' Outside
    = [PSpec ''(key)-10s'', PLit (CHR '' ''), PLit (CHR ''=''), PLit (CHR '' ''), PSpec ''(value).2f'']"
  by (simp add: is_conversion_type_def)

lemma tokens_args: "format_tokens ''{:<10} = {:.2f}'' In_text
    = [FField '':<10'', FLit (CHR '' ''), FLit (CHR ''=''), FLit (CHR '' ''), FField '':.2f'']"
  by simp

lemma tokens_kw: "format_tokens ''{key:<10} = {value:.2f}'' In_text
    = [FField ''key:<10'', FLit (CHR '' ''), FLit (CHR ''=''), FLit (CHR '' ''), FField ''value:.2f'']"
  by simp


lemma specifier_s: "parse_specifier ''-10s''
    = Some \<lparr>mapping_key = None, left_adjust = True, min_width = 10, spec_precision = None,
        conversion = CHR ''s''\<rparr>"
  by (simp add: parse_specifier_def take_key_def is_digit_def take_precision_def number_of_def)

lemma specifier_f: "parse_specifier ''.2f''
    = Some \<lparr>mapping_key = None, left_adjust = False, min_width = 0, spec_precision = Some 2,
        conversion = CHR ''f''\<rparr>"
  by (simp add: parse_specifier_def take_key_def is_digit_def take_precision_def number_of_def)

lemma specifier_key_s: "parse_specifier ''(key)-10s''
    = Some \<lparr>mapping_key = Some ''key'', left_adjust = True, min_width = 10,
        spec_precision = None, conversion = CHR ''s''\<rparr>"
  by (simp add: parse_specifier_def take_key_def is_digit_def take_precision_def number_of_def)

lemma specifier_key_f: "parse_specifier ''(value).2f''
    = Some \<lparr>mapping_key = Some ''value'', left_adjust = False, min_width = 0,
        spec_precision = Some 2, conversion = CHR ''f''\<rparr>"
  by (simp add: parse_specifier_def take_key_def is_digit_def take_precision_def number_of_def)

lemma format_key: "format_builtin item4_key ''<10'' = Formatted ''my_var    ''"
  by (simp add: format_builtin_def spec_left format_value_def item4_key_def pad_def numeral_eq_Suc)

lemma format_val: "format_builtin item4_value ''.2f'' = Formatted ''1.23''"
  by (simp add: format_builtin_def spec_fixed format_value_def item4_value_def pad_def fixed_value)

lemma convert_key: "convert \<lparr>mapping_key = k, left_adjust = True, min_width = 10,
      spec_precision = None, conversion = CHR ''s''\<rparr> item4_key = Formatted ''my_var    ''"
  by (simp add: convert_def item4_key_def pad_def numeral_eq_Suc)

lemma convert_val: "convert \<lparr>mapping_key = k, left_adjust = False, min_width = 0,
      spec_precision = Some 2, conversion = CHR ''f''\<rparr> item4_value = Formatted ''1.23''"
  by (simp add: convert_def item4_value_def pad_def fixed_value)

lemma old_way_value: "old_way = Formatted ''my_var     = 1.23''"
  unfolding old_way_def percent_format_def tokens_tuple
  by (simp add: specifier_s specifier_f convert_key convert_val then_append_def)

lemma c_tuple_value: "c_tuple = Formatted ''my_var     = 1.23''"
  unfolding c_tuple_def percent_format_def tokens_tuple
  by (simp add: specifier_s specifier_f convert_key convert_val then_append_def)

lemma new_way_value: "new_way = Formatted ''my_var     = 1.23''"
  unfolding new_way_def percent_format_def tokens_dict
  by (simp add: specifier_key_s specifier_key_f convert_key convert_val then_append_def)

lemma reordered_value: "reordered = Formatted ''my_var     = 1.23''"
  unfolding reordered_def percent_format_def tokens_dict
  by (simp add: specifier_key_s specifier_key_f convert_key convert_val then_append_def)

lemma c_dict_value: "c_dict = Formatted ''my_var     = 1.23''"
  unfolding c_dict_def percent_format_def tokens_dict
  by (simp add: specifier_key_s specifier_key_f convert_key convert_val then_append_def)

lemma str_args_value: "str_args = Formatted ''my_var     = 1.23''"
  unfolding str_args_def str_format_def tokens_args
  by (simp add: field_name_def field_spec_def format_key format_val then_append_def)

lemma str_kw_value: "str_kw = Formatted ''my_var     = 1.23''"
  unfolding str_kw_def str_format_def tokens_kw
  by (simp add: field_name_def field_spec_def is_digit_def format_key format_val then_append_def)

lemma f_string_value: "f_string = Formatted ''my_var     = 1.23''"
  unfolding f_string_def
  by (simp add: format_key format_val then_append_def)

text \<open>
  Claim C8. With \<open>key = 'my_var'\<close> and \<open>value = 1.234\<close>, the C-style format
  with a tuple, the C-style format with a dictionary (in either order of its
  keys), the two \<open>str.format\<close> calls and the f-string all produce the same
  string, \<open>my_var\<close> padded to ten characters, \<open> = \<close> and \<open>1.23\<close>; so both
  chains of the snippet's assertions hold.
\<close>

theorem formatting_expressions_agree:
  "old_way = new_way \<and> new_way = reordered
   \<and> c_tuple = c_dict \<and> c_dict = f_string
   \<and> str_args = str_kw \<and> str_kw = f_string
   \<and> old_way = f_string
   \<and> f_string = Formatted ''my_var     = 1.23''"
  by (simp add: old_way_value new_way_value reordered_value c_tuple_value c_dict_value
      str_args_value str_kw_value f_string_value)

text \<open>
  The rounding of the model at ties and the padding, on values whose binary
  representation is exact (\<open>'%.2f' % 0.125\<close> is \<open>0.12\<close>, \<open>'%.0f' % 1.5\<close> is \<open>2\<close>,
  \<open>'%5.1f' % 2.25\<close> is \<open>2.2\<close> after two blanks, \<open>'{:^7}'.format('ab')\<close> has
  two blanks before and three after).
\<close>

lemma fixed_point_ties:
  "fixed_point 2 (1 / 8) = ''0.12''"
  "fixed_point 2 (3 / 8) = ''0.38''"
  "fixed_point 0 (1 / 2) = ''0''"
  "fixed_point 0 (3 / 2) = ''2''"
  "fixed_point 1 (- (9 / 4)) = ''-2.2''"
proof -
  have f: "\<lfloor>(25 / 2 :: rat)\<rfloor> = 12" "\<lfloor>(75 / 2 :: rat)\<rfloor> = 37" "\<lfloor>(1 / 2 :: rat)\<rfloor> = 0"
    "\<lfloor>(3 / 2 :: rat)\<rfloor> = 1" "\<lfloor>(45 / 2 :: rat)\<rfloor> = 22"
    by (rule floor_unique; simp)+
  show "fixed_point 2 (1 / 8) = ''0.12''"
    by (simp add: fixed_point_def round_half_even_def f Let_def dec_digits.simps)
  show "fixed_point 2 (3 / 8) = ''0.38''"
    by (simp add: fixed_point_def round_half_even_def f Let_def dec_digits.simps)
  show "fixed_point 0 (1 / 2) = ''0''"
    by (simp add: fixed_point_def round_half_even_def f Let_def dec_digits.simps)
  show "fixed_point 0 (3 / 2) = ''2''"
    by (simp add: fixed_point_def round_half_even_def f Let_def dec_digits.simps)
  show "fixed_point 1 (- (9 / 4)) = ''-2.2''"
    by (simp add: fixed_point_def round_half_even_def f Let_def dec_digits.simps)
qed

lemma pad_examples:
  "pad (CHR '' '') (CHR ''^'') 7 ''ab'' = ''  ab   ''"
  "pad (CHR ''*'') (CHR ''<'') 6 ''x'' = ''x*****''"
  "pad (CHR '' '') (CHR ''>'') 5 ''2.2'' = ''  2.2''"
proof -
  have r: "replicate 2 c = [c, c]" "replicate 3 c = [c, c, c]" "replicate 5 c = [c, c, c, c, c]"
    for c :: char
    by (simp_all add: numeral_eq_Suc)
  show "pad (CHR '' '') (CHR ''^'') 7 ''ab'' = ''  ab   ''" by (simp add: pad_def r)
  show "pad (CHR ''*'') (CHR ''<'') 6 ''x'' = ''x*****''" by (simp add: pad_def r)
  show "pad (CHR '' '') (CHR ''>'') 5 ''2.2'' = ''  2.2''" by (simp add: pad_def r)
qed


section \<open>Properties of blocks run alone and after other blocks\<close>




























end
